theory Spec2Isabelle
  imports Main
begin

section \<open>Errors\<close>

text \<open>
  \<open>throw new Error(msg)\<close> is \<open>Inl (Error msg)\<close>; a function that can throw returns
  \<open>error + 'a\<close>. The other constructors are the failures raised by the libraries the code
  calls: a schema validation failure of the document mapper, with the messages of the
  paths that failed, and a failure of the store (a connection that cannot be established,
  a query that cannot be run).
\<close>

datatype error =
    Error string
  | ValidationError "string list"
  | StoreError string

section \<open>JavaScript strings\<close>

text \<open>
  A JavaScript string is a sequence of UTF-16 code units; \<open>length\<close>, \<open>trim\<close> and regular
  expressions without the \<open>u\<close> flag all work on code units. A code unit is modelled as a
  natural number, a string as a list of them. \<open>js\<close> turns an ASCII literal into such a list.
\<close>

type_synonym jsstring = "nat list"
definition js :: "string \<Rightarrow> jsstring" where "js s = map of_char s"

text \<open>
  The white space and line terminator code units of ECMAScript: what \<open>\s\<close> matches and
  what \<open>String.prototype.trim\<close> strips.
\<close>

definition isWhiteSpace :: "nat \<Rightarrow> bool" where
  "isWhiteSpace c = ((9 \<le> c \<and> c \<le> 13) \<or> c = 32 \<or> c = 160 \<or> c = 5760 \<or> (8192 \<le> c \<and> c \<le> 8202)
     \<or> c = 8232 \<or> c = 8233 \<or> c = 8239 \<or> c = 8287 \<or> c = 12288 \<or> c = 65279)"

definition trim :: "jsstring \<Rightarrow> jsstring" where
  "trim s = rev (dropWhile isWhiteSpace (rev (dropWhile isWhiteSpace s)))"

text \<open>
  Modelled from ECMAScript: \<open>String.prototype.toLowerCase\<close> (the Unicode default lower-case
  mapping), a built-in of the language and no code of the repository. The table holds the
  cased code units up to U+00FF and the two code units above U+007F whose lower-case form
  contains an ASCII letter: U+0130 (to \<open>i\<close> followed by U+0307) and U+212A KELVIN SIGN
  (to \<open>k\<close>). Every other cased letter is mapped by ECMAScript to code units above U+007F
  that are neither white space nor any character the functions below single out; the
  model leaves those code units as they are.
\<close>

definition lowerUnit :: "nat \<Rightarrow> jsstring" where
  "lowerUnit c =
     (if 65 \<le> c \<and> c \<le> 90 then [c + 32]
      else if 192 \<le> c \<and> c \<le> 222 \<and> c \<noteq> 215 then [c + 32]
      else if c = 304 then [105, 775]
      else if c = 8490 then [107]
      else [c])"

fun toLowerCase :: "jsstring \<Rightarrow> jsstring" where
  "toLowerCase [] = []"
| "toLowerCase (c # cs) = lowerUnit c @ toLowerCase cs"

section \<open>The Event model: \<open>src/database/event.model.ts\<close>\<close>

subsection \<open>slugify\<close>

text \<open>
  \<^verbatim>\<open>input.toLowerCase().trim().replace(/['`]/g, '')
       .replace(/[^a-z0-9]+/g, '-').replace(/(^-|-$)+/g, '')\<close>

  \<^item> \<open>removeQuotes\<close> is the first replacement: every apostrophe and backtick is deleted.
  \<^item> \<open>hyphenateRuns\<close> is the second: a left-to-right scan in which every maximal run of
    code units outside \<open>[a-z0-9]\<close> becomes one hyphen; the flag says that the scan is
    inside such a run, whose hyphen has been written already.
  \<^item> \<open>stripEdgeHyphens\<close> is the third. Without the \<open>m\<close> flag \<open>^\<close> matches at index 0 only
    and \<open>$\<close> at the end only, so a match of \<open>(^-|-$)+\<close> is a hyphen at index 0, a hyphen at
    the last index, or both when the string is \<open>--\<close>: the replacement deletes one leading
    hyphen and then one trailing hyphen of what is left.
\<close>

definition isSlugAlnum :: "nat \<Rightarrow> bool" where
  "isSlugAlnum c = ((97 \<le> c \<and> c \<le> 122) \<or> (48 \<le> c \<and> c \<le> 57))"

definition removeQuotes :: "jsstring \<Rightarrow> jsstring" where
  "removeQuotes s = filter (\<lambda>c. c \<noteq> 39 \<and> c \<noteq> 96) s"

fun hyphenateRuns :: "bool \<Rightarrow> jsstring \<Rightarrow> jsstring" where
  "hyphenateRuns inRun [] = []"
| "hyphenateRuns inRun (c # cs) =
     (if isSlugAlnum c then c # hyphenateRuns False cs
      else if inRun then hyphenateRuns True cs
      else 45 # hyphenateRuns True cs)"

definition dropLeadingHyphen :: "jsstring \<Rightarrow> jsstring" where
  "dropLeadingHyphen s = (case s of [] \<Rightarrow> [] | c # cs \<Rightarrow> if c = 45 then cs else s)"

definition dropTrailingHyphen :: "jsstring \<Rightarrow> jsstring" where
  "dropTrailingHyphen s = (if s \<noteq> [] \<and> last s = 45 then butlast s else s)"

definition stripEdgeHyphens :: "jsstring \<Rightarrow> jsstring" where
  "stripEdgeHyphens s = dropTrailingHyphen (dropLeadingHyphen s)"

definition slugify :: "jsstring \<Rightarrow> jsstring" where
  "slugify input = stripEdgeHyphens (hyphenateRuns False (removeQuotes (trim (toLowerCase input))))"

text \<open>
  What a slug looks like: its characters, no two hyphens in a row, no hyphen at either end.
\<close>

definition isSlugChar :: "nat \<Rightarrow> bool" where
  "isSlugChar c = (isSlugAlnum c \<or> c = 45)"

fun noHyphenPair :: "jsstring \<Rightarrow> bool" where
  "noHyphenPair (a # b # cs) = (\<not> (a = 45 \<and> b = 45) \<and> noHyphenPair (b # cs))"
| "noHyphenPair _ = True"

definition edgeClean :: "jsstring \<Rightarrow> bool" where
  "edgeClean s = (s = [] \<or> (hd s \<noteq> 45 \<and> last s \<noteq> 45))"

subsection \<open>Decimal numbers\<close>

definition isDigit :: "nat \<Rightarrow> bool" where
  "isDigit c = (48 \<le> c \<and> c \<le> 57)"

text \<open>\<open>parseInt(s, 10)\<close> on a string of decimal digits.\<close>

definition parseDec :: "jsstring \<Rightarrow> nat" where
  "parseDec s = foldl (\<lambda>n d. 10 * n + (d - 48)) 0 s"

text \<open>\<open>String(n)\<close> for a non-negative integer, and \<open>s.padStart(k, '0')\<close>.\<close>

fun showNat :: "nat \<Rightarrow> jsstring" where
  "showNat n = (if n < 10 then [48 + n] else showNat (n div 10) @ [48 + n mod 10])"

declare showNat.simps [simp del]

definition padStart0 :: "nat \<Rightarrow> jsstring \<Rightarrow> jsstring" where
  "padStart0 k s = replicate (k - length s) 48 @ s"

subsection \<open>normalizeTime\<close>

text \<open>
  \<^verbatim>\<open>/^\s*(\d{1,2})(?::?(\d{2}))?\s*([ap]m)?\s*$/i\<close>

  The matcher follows the backtracking order of the regular expression: a greedy
  quantifier tries its longest match first and an optional group tries to take part
  before it is skipped. \<open>orElse\<close> is that order of alternatives. A match gives the three
  capture groups; a group that took no part is \<open>None\<close> (\<open>undefined\<close>).

  With the \<open>i\<close> flag and without the \<open>u\<close> flag a code unit above U+007F never matches an
  ASCII letter, so \<open>[ap]\<close> matches \<open>a A p P\<close> and \<open>m\<close> matches \<open>m M\<close> only.
\<close>

definition orElse :: "'a option \<Rightarrow> 'a option \<Rightarrow> 'a option" where
  "orElse a b = (case a of Some x \<Rightarrow> Some x | None \<Rightarrow> b)"

definition isAorP :: "nat \<Rightarrow> bool" where
  "isAorP c = (c = 97 \<or> c = 65 \<or> c = 112 \<or> c = 80)"

definition isM :: "nat \<Rightarrow> bool" where
  "isM c = (c = 109 \<or> c = 77)"

text \<open>\<open>\s*$\<close>: the rest is white space.\<close>

definition matchEnd :: "jsstring \<Rightarrow> bool" where
  "matchEnd r = (dropWhile isWhiteSpace r = [])"

text \<open>\<open>\s*([ap]m)?\s*$\<close>: the result is capture group 3.\<close>

definition matchTail :: "jsstring \<Rightarrow> jsstring option option" where
  "matchTail r =
     (let r1 = dropWhile isWhiteSpace r in
      orElse
        (case r1 of
           a # m # r2 \<Rightarrow> if isAorP a \<and> isM m \<and> matchEnd r2 then Some (Some [a, m]) else None
         | _ \<Rightarrow> None)
        (if matchEnd r1 then Some None else None))"

text \<open>\<open>(\d{2})\<close> and what follows the optional group.\<close>

definition matchTwoDigits :: "jsstring \<Rightarrow> (jsstring option \<times> jsstring option) option" where
  "matchTwoDigits r =
     (case r of
        d1 # d2 # r1 \<Rightarrow>
          if isDigit d1 \<and> isDigit d2
          then map_option (\<lambda>ap. (Some [d1, d2], ap)) (matchTail r1)
          else None
      | _ \<Rightarrow> None)"

text \<open>\<open>(?::?(\d{2}))?\<close> and what follows: the results are capture groups 2 and 3.\<close>

definition matchMinutes :: "jsstring \<Rightarrow> (jsstring option \<times> jsstring option) option" where
  "matchMinutes r =
     orElse
       (orElse
          (case r of c # r1 \<Rightarrow> if c = 58 then matchTwoDigits r1 else None | [] \<Rightarrow> None)
          (matchTwoDigits r))
       (map_option (\<lambda>ap. (None, ap)) (matchTail r))"

text \<open>The whole expression: the results are capture groups 1, 2 and 3.\<close>

definition matchTime :: "jsstring \<Rightarrow> (jsstring \<times> jsstring option \<times> jsstring option) option" where
  "matchTime v =
     (let r = dropWhile isWhiteSpace v in
      orElse
        (case r of
           d1 # d2 # r1 \<Rightarrow>
             if isDigit d1 \<and> isDigit d2
             then map_option (\<lambda>g. ([d1, d2], g)) (matchMinutes r1)
             else None
         | _ \<Rightarrow> None)
        (case r of
           d1 # r1 \<Rightarrow>
             if isDigit d1 then map_option (\<lambda>g. ([d1], g)) (matchMinutes r1) else None
         | [] \<Rightarrow> None))"

text \<open>
  \<^verbatim>\<open>const v = value.trim();
  const ampmMatch = v.match(...);
  if (!ampmMatch) throw new Error('time is invalid');
  let hours = parseInt(ampmMatch[1], 10);
  const minutes = parseInt(ampmMatch[2] ?? '0', 10);
  const ampm = (ampmMatch[3] ?? '').toLowerCase();
  if (ampm) { if (hours === 12) hours = 0; if (ampm === 'pm') hours += 12; }
  if (hours < 0 || hours > 23 || minutes < 0 || minutes > 59) throw new Error('time is invalid');
  return `${String(hours).padStart(2, '0')}:${String(minutes).padStart(2, '0')}`;\<close>
\<close>

definition adjustHours :: "nat \<Rightarrow> jsstring \<Rightarrow> nat" where
  "adjustHours hours ampm =
     (if ampm \<noteq> [] then
        (let h = (if hours = 12 then 0 else hours)
         in if ampm = [112, 109] then h + 12 else h)
      else hours)"

definition normalizeTime :: "jsstring \<Rightarrow> error + jsstring" where
  "normalizeTime value =
     (let v = trim value in
      case matchTime v of
        None \<Rightarrow> Inl (Error ''time is invalid'')
      | Some (g1, g2, g3) \<Rightarrow>
          (let hours0 = parseDec g1;
               minutes = parseDec (case g2 of None \<Rightarrow> [48] | Some s \<Rightarrow> s);
               ampm = toLowerCase (case g3 of None \<Rightarrow> [] | Some s \<Rightarrow> s);
               hours = adjustHours hours0 ampm
           in if hours > 23 \<or> minutes > 59 then Inl (Error ''time is invalid'')
              else Inr (padStart0 2 (showNat hours) @ [58] @ padStart0 2 (showNat minutes))))"

subsection \<open>The accepted time strings, stated declaratively\<close>

text \<open>
  \<open>timeForm s hs ms ap\<close>: the string is, between optional white space, an hour \<open>hs\<close> of one
  or two digits, optionally two minute digits \<open>ms\<close> after an optional colon, optional white
  space and an optional \<open>am\<close>/\<open>pm\<close> in either case, \<open>ap\<close>; a part that is absent is the
  empty string. \<open>clockHour\<close> is the 24-hour value of such an hour and \<open>clockText\<close> the
  zero-padded \<open>HH:mm\<close> text. \<open>specTimePattern\<close> is the narrower set of patterns \<open>H\<close>, \<open>HH\<close>,
  \<open>H:mm\<close>, \<open>HH:mm\<close> with an optional trailing \<open>am\<close>/\<open>pm\<close>. \<open>capture\<close> and \<open>optCapture\<close>
  go between a capture group and its text, and \<open>tailStart\<close> says that a string does not
  begin with a digit or a colon; they serve the proofs.
\<close>

definition capture :: "jsstring option \<Rightarrow> jsstring" where
  "capture g = (case g of None \<Rightarrow> [] | Some s \<Rightarrow> s)"

definition isAmPm :: "jsstring \<Rightarrow> bool" where
  "isAmPm ap = (case ap of [a, m] \<Rightarrow> isAorP a \<and> isM m | _ \<Rightarrow> False)"

definition isHourDigits :: "jsstring \<Rightarrow> bool" where
  "isHourDigits x = (list_all isDigit x \<and> (length x = 1 \<or> length x = 2))"

definition isClockCore :: "jsstring \<Rightarrow> bool" where
  "isClockCore c =
     (isHourDigits c \<or>
      (4 \<le> length c \<and> c ! (length c - 3) = 58 \<and> isHourDigits (take (length c - 3) c)
         \<and> list_all isDigit (drop (length c - 2) c)))"

definition specTimePattern :: "jsstring \<Rightarrow> bool" where
  "specTimePattern s =
     (isClockCore s \<or>
      (2 \<le> length s \<and> isAmPm (drop (length s - 2) s) \<and> isClockCore (take (length s - 2) s)))"

definition timeForm :: "jsstring \<Rightarrow> jsstring \<Rightarrow> jsstring \<Rightarrow> jsstring \<Rightarrow> bool" where
  "timeForm s hs ms ap =
     (\<exists>w1 sep w2 w3. s = w1 @ hs @ sep @ ms @ w2 @ ap @ w3
        \<and> list_all isWhiteSpace w1 \<and> list_all isWhiteSpace w2 \<and> list_all isWhiteSpace w3
        \<and> list_all isDigit hs \<and> (length hs = 1 \<or> length hs = 2)
        \<and> ((ms = [] \<and> sep = []) \<or> (length ms = 2 \<and> list_all isDigit ms \<and> (sep = [] \<or> sep = [58])))
        \<and> (ap = [] \<or> isAmPm ap))"

definition optCapture :: "jsstring \<Rightarrow> jsstring option" where
  "optCapture s = (if s = [] then None else Some s)"

definition tailStart :: "jsstring \<Rightarrow> bool" where
  "tailStart r = (case r of [] \<Rightarrow> True | c # _ \<Rightarrow> \<not> isDigit c \<and> c \<noteq> 58)"

definition clockHour :: "jsstring \<Rightarrow> jsstring \<Rightarrow> nat" where
  "clockHour hs ap =
     (if ap = [] then parseDec hs
      else (if parseDec hs = 12 then 0 else parseDec hs)
           + (if toLowerCase ap = [112, 109] then 12 else 0))"

definition clockText :: "nat \<Rightarrow> nat \<Rightarrow> jsstring" where
  "clockText h m = [48 + h div 10, 48 + h mod 10, 58, 48 + m div 10, 48 + m mod 10]"

subsection \<open>normalizeDate\<close>

text \<open>
  A \<open>Date\<close> holds a time value: an integral number of milliseconds since the epoch, or
  \<open>NaN\<close> (an invalid date), modelled as \<open>int option\<close>.

  Modelled from ECMAScript: \<open>getUTCFullYear\<close>, \<open>getUTCMonth\<close> and \<open>getUTCDate\<close>, built-ins of
  the language and no code of the repository. \<open>utcDay\<close> is \<open>Day(t)\<close>, the number of the day
  that holds the time value; \<open>civilFromDays\<close> gives the year, the month (1 to 12) and the
  day of the month of a day number in the proleptic Gregorian calendar, by the usual
  computation on 400-year eras that start on 1 March.
\<close>

definition msPerDay :: int where
  "msPerDay = 86400000"

definition utcDay :: "int \<Rightarrow> int" where
  "utcDay t = t div msPerDay"

definition civilFromDays :: "int \<Rightarrow> int \<times> int \<times> int" where
  "civilFromDays days =
     (let z = days + 719468;
          era = z div 146097;
          doe = z - era * 146097;
          yoe = (doe - doe div 1460 + doe div 36524 - doe div 146096) div 365;
          doy = doe - (365 * yoe + yoe div 4 - yoe div 100);
          mp = (5 * doy + 2) div 153;
          d = doy - (153 * mp + 2) div 5 + 1;
          m = (if mp < 10 then mp + 3 else mp - 9);
          y = yoe + era * 400 + (if m \<le> 2 then 1 else 0)
      in (y, m, d))"

definition getUTCFullYear :: "int \<Rightarrow> int" where
  "getUTCFullYear t = fst (civilFromDays (utcDay t))"

definition getUTCMonth :: "int \<Rightarrow> int" where
  "getUTCMonth t = fst (snd (civilFromDays (utcDay t))) - 1"

definition getUTCDate :: "int \<Rightarrow> int" where
  "getUTCDate t = snd (snd (civilFromDays (utcDay t)))"

text \<open>\<open>String(i)\<close> for an integer.\<close>

definition showInt :: "int \<Rightarrow> jsstring" where
  "showInt i = (if i < 0 then 45 # showNat (nat (- i)) else showNat (nat i))"

text \<open>
  \<^verbatim>\<open>const d = typeof value === 'string' ? new Date(value) : value;
  if (Number.isNaN(d.getTime())) throw new Error('date is invalid');
  const yyyy = d.getUTCFullYear();
  const mm = String(d.getUTCMonth() + 1).padStart(2, '0');
  const dd = String(d.getUTCDate()).padStart(2, '0');
  return `${yyyy}-${mm}-${dd}`;\<close>

  The argument is a string or a \<open>Date\<close>. What \<open>new Date(string)\<close> reads is fixed by
  ECMAScript for the date-time string format only and left to the implementation for
  every other string, so the parser is a parameter of the model.
\<close>

datatype dateInput = DateString jsstring | DateObject "int option"

definition normalizeDate :: "(jsstring \<Rightarrow> int option) \<Rightarrow> dateInput \<Rightarrow> error + jsstring" where
  "normalizeDate dateParse value =
     (let d = (case value of DateString s \<Rightarrow> dateParse s | DateObject t \<Rightarrow> t) in
      case d of
        None \<Rightarrow> Inl (Error ''date is invalid'')
      | Some t \<Rightarrow>
          (let yyyy = getUTCFullYear t;
               mm = padStart0 2 (showInt (getUTCMonth t + 1));
               dd = padStart0 2 (showInt (getUTCDate t))
           in Inr (showInt yyyy @ [45] @ mm @ [45] @ dd)))"

text \<open>
  Modelled from ECMAScript: the date-only form \<open>YYYY-MM-DD\<close> of the date-time string format,
  which \<open>Date.parse\<close> reads as midnight UTC of that day. \<open>isoDateOnlyParse\<close> is an instance of
  the parser that reads this form and nothing else; it is used at strings of this form
  only. \<open>daysFromCivil\<close> is the day number of a calendar date.
\<close>

definition daysFromCivil :: "int \<Rightarrow> int \<Rightarrow> int \<Rightarrow> int" where
  "daysFromCivil y m d =
     (let y1 = (if m \<le> 2 then y - 1 else y);
          era = y1 div 400;
          yoe = y1 - era * 400;
          doy = (153 * (if m > 2 then m - 3 else m + 9) + 2) div 5 + d - 1;
          doe = yoe * 365 + yoe div 4 - yoe div 100 + doy
      in era * 146097 + doe - 719468)"

definition daysInMonth :: "int \<Rightarrow> int \<Rightarrow> int" where
  "daysInMonth y m =
     (if m = 2 then (if y mod 4 = 0 \<and> (y mod 100 \<noteq> 0 \<or> y mod 400 = 0) then 29 else 28)
      else if m = 4 \<or> m = 6 \<or> m = 9 \<or> m = 11 then 30 else 31)"

definition isoDateOnlyParse :: "jsstring \<Rightarrow> int option" where
  "isoDateOnlyParse s =
     (if length s = 10 \<and> list_all isDigit (take 4 s) \<and> s ! 4 = 45
         \<and> list_all isDigit (take 2 (drop 5 s)) \<and> s ! 7 = 45 \<and> list_all isDigit (drop 8 s)
      then (let y = int (parseDec (take 4 s));
                m = int (parseDec (take 2 (drop 5 s)));
                d = int (parseDec (drop 8 s))
            in if 1 \<le> m \<and> m \<le> 12 \<and> 1 \<le> d \<and> d \<le> daysInMonth y m
               then Some (daysFromCivil y m d * msPerDay) else None)
      else None)"

subsection \<open>The Event document and its pre-save hook\<close>

text \<open>
  The fields of \<open>EventAttrs\<close>. A field read as \<open>unknown\<close> by \<open>assertNonEmpty\<close> is
  \<open>Some s\<close> when it holds the string \<open>s\<close> and \<open>None\<close> when it holds no string; \<open>agenda\<close>
  and \<open>tags\<close> are \<open>None\<close> when they hold no array. \<open>slug\<close> is optional. \<open>date\<close> and
  \<open>time\<close> are strings (the schema requires them, and \<open>normalizeTime\<close> calls \<open>trim\<close> on
  the value). \<open>image_url\<close> is the field \<open>image\<close>. \<open>titleModified\<close> is what
  \<open>this.isModified('title')\<close> returns: the document mapper sets it when \<open>title\<close> is
  assigned a value that differs from the one it holds. The timestamps, which the mapper
  keeps, play no part in the hook and are left out.
\<close>

record eventDoc =
  title :: "jsstring option"
  slug :: "jsstring option"
  description :: "jsstring option"
  overview :: "jsstring option"
  image_url :: "jsstring option"
  venue :: "jsstring option"
  location :: "jsstring option"
  date :: jsstring
  time :: jsstring
  mode :: "jsstring option"
  audience :: "jsstring option"
  agenda :: "jsstring list option"
  organizer :: "jsstring option"
  tags :: "jsstring list option"
  titleModified :: bool

definition thenDo :: "error + 'a \<Rightarrow> ('a \<Rightarrow> error + 'b) \<Rightarrow> error + 'b" where
  "thenDo r f = (case r of Inl e \<Rightarrow> Inl e | Inr x \<Rightarrow> f x)"

text \<open>
  \<^verbatim>\<open>if (typeof value !== 'string') throw new Error(`${field} must be a string`);
  const v = value.trim();
  if (!v) throw new Error(`${field} is required`);
  return v;\<close>
\<close>

definition assertNonEmpty :: "jsstring option \<Rightarrow> string \<Rightarrow> error + jsstring" where
  "assertNonEmpty value field =
     (case value of
        None \<Rightarrow> Inl (Error (field @ '' must be a string''))
      | Some s \<Rightarrow> if trim s = [] then Inl (Error (field @ '' is required'')) else Inr (trim s))"

text \<open>\<open>this.title = v\<close>, with the mapper's change tracking.\<close>

definition assignTitle :: "jsstring \<Rightarrow> eventDoc \<Rightarrow> eventDoc" where
  "assignTitle v d = d\<lparr>title := Some v, titleModified := (titleModified d \<or> title d \<noteq> Some v)\<rparr>"

text \<open>\<open>this.f = assertNonEmpty(this.f, 'f')\<close> for one field.\<close>

definition sanitizeField ::
  "(eventDoc \<Rightarrow> jsstring option) \<Rightarrow> (jsstring \<Rightarrow> eventDoc \<Rightarrow> eventDoc) \<Rightarrow> string \<Rightarrow> eventDoc
     \<Rightarrow> error + eventDoc" where
  "sanitizeField get put field d = thenDo (assertNonEmpty (get d) field) (\<lambda>v. Inr (put v d))"

text \<open>The nine assignments of the hook, in the order of the source.\<close>

definition sanitizeStrings :: "eventDoc \<Rightarrow> error + eventDoc" where
  "sanitizeStrings d0 =
     thenDo (sanitizeField title assignTitle ''title'' d0) (\<lambda>d1.
     thenDo (sanitizeField description (\<lambda>v d. d\<lparr>description := Some v\<rparr>) ''description'' d1) (\<lambda>d2.
     thenDo (sanitizeField overview (\<lambda>v d. d\<lparr>overview := Some v\<rparr>) ''overview'' d2) (\<lambda>d3.
     thenDo (sanitizeField image_url (\<lambda>v d. d\<lparr>image_url := Some v\<rparr>) ''image'' d3) (\<lambda>d4.
     thenDo (sanitizeField venue (\<lambda>v d. d\<lparr>venue := Some v\<rparr>) ''venue'' d4) (\<lambda>d5.
     thenDo (sanitizeField location (\<lambda>v d. d\<lparr>location := Some v\<rparr>) ''location'' d5) (\<lambda>d6.
     thenDo (sanitizeField mode (\<lambda>v d. d\<lparr>mode := Some v\<rparr>) ''mode'' d6) (\<lambda>d7.
     thenDo (sanitizeField audience (\<lambda>v d. d\<lparr>audience := Some v\<rparr>) ''audience'' d7) (\<lambda>d8.
     sanitizeField organizer (\<lambda>v d. d\<lparr>organizer := Some v\<rparr>) ''organizer'' d8))))))))"

text \<open>
  \<^verbatim>\<open>if (!Array.isArray(this.agenda) || this.agenda.length === 0) throw new Error('agenda is required');
  if (!Array.isArray(this.tags) || this.tags.length === 0) throw new Error('tags are required');\<close>
\<close>

definition emptyOrNoArray :: "jsstring list option \<Rightarrow> bool" where
  "emptyOrNoArray a = (case a of None \<Rightarrow> True | Some xs \<Rightarrow> xs = [])"

definition checkLists :: "eventDoc \<Rightarrow> error + eventDoc" where
  "checkLists d =
     (if emptyOrNoArray (agenda d) then Inl (Error ''agenda is required'')
      else if emptyOrNoArray (tags d) then Inl (Error ''tags are required'')
      else Inr d)"

text \<open>
  \<^verbatim>\<open>if (this.isModified('title') || !this.slug) { this.slug = slugify(this.title); }\<close>

  \<open>!this.slug\<close> holds for a missing slug and for the empty string. The title is a string
  here, \<open>assertNonEmpty\<close> having returned it.
\<close>

definition slugMissing :: "jsstring option \<Rightarrow> bool" where
  "slugMissing s = (case s of None \<Rightarrow> True | Some x \<Rightarrow> x = [])"

definition slugGate :: "eventDoc \<Rightarrow> eventDoc" where
  "slugGate d =
     (if titleModified d \<or> slugMissing (slug d)
      then d\<lparr>slug := map_option slugify (title d)\<rparr>
      else d)"

text \<open>
  \<^verbatim>\<open>this.date = normalizeDate(this.date);
  this.time = normalizeTime(this.time);\<close>
\<close>

definition normalizeDateTime :: "(jsstring \<Rightarrow> int option) \<Rightarrow> eventDoc \<Rightarrow> error + eventDoc" where
  "normalizeDateTime dateParse d =
     thenDo (normalizeDate dateParse (DateString (date d))) (\<lambda>dt.
     thenDo (normalizeTime (time d)) (\<lambda>tm.
     Inr (d\<lparr>date := dt, time := tm\<rparr>)))"

text \<open>
  The hook: \<open>Inr\<close> is \<open>next()\<close> with the document as it then is, \<open>Inl e\<close> is \<open>next(e)\<close>,
  which aborts the save.
\<close>

definition preSaveEvent :: "(jsstring \<Rightarrow> int option) \<Rightarrow> eventDoc \<Rightarrow> error + eventDoc" where
  "preSaveEvent dateParse d =
     thenDo (sanitizeStrings d) (\<lambda>d1.
     thenDo (checkLists d1) (\<lambda>d2.
     normalizeDateTime dateParse (slugGate d2)))"

subsection \<open>Predicates and sample data for the statements about the hook\<close>

text \<open>An ASCII letter or digit, of either case.\<close>

definition isAsciiAlnum :: "nat \<Rightarrow> bool" where
  "isAsciiAlnum c = ((48 \<le> c \<and> c \<le> 57) \<or> (65 \<le> c \<and> c \<le> 90) \<or> (97 \<le> c \<and> c \<le> 122))"

text \<open>
  The slug after a successful save of a document whose title is \<open>t\<close>: it is derived from the
  trimmed title when the title was flagged as modified, when the hook's own trimming
  changes it, or when no slug is present, and is the slug of the document otherwise.
\<close>

definition slugAfterSave :: "eventDoc \<Rightarrow> jsstring \<Rightarrow> jsstring option" where
  "slugAfterSave d t =
     (if titleModified d \<or> t \<noteq> trim t \<or> slugMissing (slug d)
      then Some (slugify (trim t)) else slug d)"

text \<open>A new event with every field filled in, for concrete runs of the hook.\<close>

definition sampleEvent :: "jsstring \<Rightarrow> eventDoc" where
  "sampleEvent t = \<lparr>title = Some t, slug = None, description = Some (js ''Talks''),
     overview = Some (js ''A day of talks''), image_url = Some (js ''/img.png''),
     venue = Some (js ''Hall 1''), location = Some (js ''Hanoi''), date = js ''2025-03-10'',
     time = js ''2pm'', mode = Some (js ''offline''), audience = Some (js ''devs''),
     agenda = Some [js ''Keynote''], organizer = Some (js ''ACM''), tags = Some [js ''web''],
     titleModified = True\<rparr>"

section \<open>The connection manager: \<open>src/lib/mongodb.ts\<close>\<close>

text \<open>
  \<open>cached\<close> holds the connection and the promise of the attempt in flight. A connection
  attempt is a call of \<open>mongoose.connect\<close>; attempts are numbered in the order of the calls,
  \<open>attempts\<close> counts them, and the promise of attempt \<open>k\<close> is identified with \<open>k\<close>. How an
  attempt settles is decided outside the program: \<open>env k\<close> is \<open>Some e\<close> when attempt \<open>k\<close> is
  rejected with \<open>e\<close> and \<open>None\<close> when it is fulfilled, with the handle \<open>Handle k\<close>.
\<close>

datatype handle = Handle nat

record mongooseCache =
  conn :: "handle option"
  promise :: "nat option"
  attempts :: nat

definition initialCache :: mongooseCache where
  "initialCache = \<lparr>conn = None, promise = None, attempts = 0\<rparr>"

text \<open>
  \<^verbatim>\<open>if (cached.conn) { return cached.conn; }
  if (!cached.promise) { cached.promise = mongoose.connect(MONGODB_URI!, connectionOptions).then((m) => m); }
  cached.conn = await cached.promise;
  return cached.conn;\<close>

  An \<open>async\<close> function runs up to its \<open>await\<close> when it is called and the rest when the
  awaited promise has settled. \<open>connectBegin\<close> is the first part: it returns the cached
  connection, or the promise the caller now awaits. \<open>connectResume\<close> is the second part, run
  for every caller that awaits promise \<open>k\<close>: a rejection is thrown out of the \<open>await\<close>, before
  the assignment. \<open>connectToDatabase\<close> is a call that is awaited to its end.
\<close>

datatype connectStep = Returned handle | Awaiting nat

definition connectBegin :: "mongooseCache \<Rightarrow> connectStep \<times> mongooseCache" where
  "connectBegin c =
     (case conn c of
        Some h \<Rightarrow> (Returned h, c)
      | None \<Rightarrow>
          (case promise c of
             None \<Rightarrow> (Awaiting (attempts c), c\<lparr>promise := Some (attempts c), attempts := Suc (attempts c)\<rparr>)
           | Some k \<Rightarrow> (Awaiting k, c)))"

definition connectResume :: "(nat \<Rightarrow> error option) \<Rightarrow> nat \<Rightarrow> mongooseCache \<Rightarrow> (error + handle) \<times> mongooseCache" where
  "connectResume env k c =
     (case env k of
        Some e \<Rightarrow> (Inl e, c)
      | None \<Rightarrow> (Inr (Handle k), c\<lparr>conn := Some (Handle k)\<rparr>))"

definition connectToDatabase :: "(nat \<Rightarrow> error option) \<Rightarrow> mongooseCache \<Rightarrow> (error + handle) \<times> mongooseCache" where
  "connectToDatabase env c =
     (case connectBegin c of
        (Returned h, c1) \<Rightarrow> (Inr h, c1)
      | (Awaiting k, c1) \<Rightarrow> connectResume env k c1)"

text \<open>
  \<^verbatim>\<open>if (cached.conn) { await mongoose.disconnect(); cached.conn = null; cached.promise = null; }\<close>
\<close>

definition disconnectFromDatabase :: "mongooseCache \<Rightarrow> mongooseCache" where
  "disconnectFromDatabase c =
     (case conn c of Some h \<Rightarrow> c\<lparr>conn := None, promise := None\<rparr> | None \<Rightarrow> c)"

text \<open>
  The states of the specification: nothing cached, an attempt in flight, connected. An
  environment in which the first attempt fails and every later one succeeds.
\<close>

definition uninitialized :: "mongooseCache \<Rightarrow> bool" where
  "uninitialized c = (conn c = None \<and> promise c = None)"

definition firstAttemptFails :: "nat \<Rightarrow> error option" where
  "firstAttemptFails k = (if k = 0 then Some (StoreError ''server unreachable'') else None)"

section \<open>The Booking model: \<open>src/database/booking.model.ts\<close>\<close>

subsection \<open>The email pattern\<close>

text \<open>
  \<^verbatim>\<open>const emailRegex = /^[^\s@]+@[^\s@]+\.[^\s@]+$/;\<close>

  The matcher reads the string from the left. \<open>localFrom\<close> is inside \<open>[^\s@]+@\<close>: it takes
  one more character of the class, or, when it has taken one, the \<open>@\<close>. \<open>domainFrom\<close> is
  inside \<open>[^\s@]+\.\<close>: it takes one more character of the class, or, when it has taken one,
  the dot, after which \<open>afterDot\<close> asks for \<open>[^\s@]+$\<close>. The flag says that the class has
  taken a character already.
\<close>

definition isEmailChar :: "nat \<Rightarrow> bool" where
  "isEmailChar c = (\<not> isWhiteSpace c \<and> c \<noteq> 64)"

definition afterDot :: "jsstring \<Rightarrow> bool" where
  "afterDot r = (r \<noteq> [] \<and> list_all isEmailChar r)"

fun domainFrom :: "bool \<Rightarrow> jsstring \<Rightarrow> bool" where
  "domainFrom taken [] = False"
| "domainFrom taken (c # cs) =
     ((isEmailChar c \<and> domainFrom True cs) \<or> (taken \<and> c = 46 \<and> afterDot cs))"

fun localFrom :: "bool \<Rightarrow> jsstring \<Rightarrow> bool" where
  "localFrom taken [] = False"
| "localFrom taken (c # cs) =
     ((isEmailChar c \<and> localFrom True cs) \<or> (taken \<and> c = 64 \<and> domainFrom False cs))"

definition emailRegexTest :: "jsstring \<Rightarrow> bool" where
  "emailRegexTest v = localFrom False v"

subsection \<open>The schema and the pre-save hook\<close>

text \<open>
  \<^verbatim>\<open>eventId: { type: Schema.Types.ObjectId, ref: 'Event', required: true, index: true },
  email: { type: String, required: true, trim: true, lowercase: true,
           validate: { validator: (v: string) => emailRegex.test(v), message: 'email is invalid' } }\<close>

  The document mapper applies the schema when a document is made and validated: it casts
  \<open>eventId\<close> to an ObjectId, trims and lower-cases \<open>email\<close>, rejects an empty \<open>email\<close> as a
  missing required value, and then runs the validator. Validation comes before the
  pre-save hooks of the schema, and a document that fails it is not saved. Which strings
  are ObjectIds is decided by the mapper: the cast is a parameter of the model. The
  message of a failed cast is abbreviated (the mapper's own names the value);
  \<open>email is invalid\<close> is the message of the schema.
\<close>

type_synonym objectId = jsstring

record bookingInput =
  inputEventId :: jsstring
  inputEmail :: jsstring

record bookingDoc =
  eventId :: objectId
  email :: jsstring

definition setEmail :: "jsstring \<Rightarrow> jsstring" where
  "setEmail v = toLowerCase (trim v)"

definition validateEmail :: "jsstring \<Rightarrow> string + jsstring" where
  "validateEmail v =
     (if setEmail v = [] then Inl ''Path `email` is required.''
      else if emailRegexTest (setEmail v) then Inr (setEmail v)
      else Inl ''email is invalid'')"

definition validateBooking :: "(jsstring \<Rightarrow> objectId option) \<Rightarrow> bookingInput \<Rightarrow> error + bookingDoc" where
  "validateBooking cast input =
     (case (cast (inputEventId input), validateEmail (inputEmail input)) of
        (Some oid, Inr e) \<Rightarrow> Inr \<lparr>eventId = oid, email = e\<rparr>
      | (Some oid, Inl m) \<Rightarrow> Inl (ValidationError [m])
      | (None, Inr e) \<Rightarrow> Inl (ValidationError [''Cast to ObjectId failed at path eventId''])
      | (None, Inl m) \<Rightarrow> Inl (ValidationError [''Cast to ObjectId failed at path eventId'', m]))"

text \<open>
  The store: the Event collection, each document under its id, and the Booking collection.
\<close>

record database =
  events :: "(objectId \<times> eventDoc) list"
  bookings :: "bookingDoc list"

text \<open>
  \<^verbatim>\<open>try {
    const exists = await Event.exists({ _id: this.eventId });
    if (!exists) throw new Error('Referenced event does not exist');
    return next();
  } catch (err) { return next(err as Error); }\<close>

  Whether the query \<open>Event.exists\<close> can be run is decided outside the program:
  \<open>existsError\<close> is \<open>Some e\<close> when the query is rejected with \<open>e\<close>, which the \<open>catch\<close> of
  the hook hands to \<open>next\<close>, and \<open>None\<close> when the query answers.
\<close>

definition eventExists :: "database \<Rightarrow> objectId \<Rightarrow> bool" where
  "eventExists db oid = (oid \<in> fst ` set (events db))"

definition preSaveBooking :: "error option \<Rightarrow> database \<Rightarrow> bookingDoc \<Rightarrow> error + bookingDoc" where
  "preSaveBooking existsError db doc =
     (case existsError of
        Some e \<Rightarrow> Inl e
      | None \<Rightarrow>
          if eventExists db (eventId doc) then Inr doc
          else Inl (Error ''Referenced event does not exist''))"

text \<open>\<open>Booking.create\<close>: validation, the pre-save hook, the insertion.\<close>

definition bookingCreate ::
  "error option \<Rightarrow> (jsstring \<Rightarrow> objectId option) \<Rightarrow> database \<Rightarrow> bookingInput \<Rightarrow> error + database" where
  "bookingCreate existsError cast db input =
     thenDo (validateBooking cast input) (\<lambda>doc.
     thenDo (preSaveBooking existsError db doc) (\<lambda>doc1.
     Inr (db\<lparr>bookings := bookings db @ [doc1]\<rparr>)))"

subsection \<open>The server action createBooking\<close>

text \<open>
  \<^verbatim>\<open>await connectToDatabase();
  await Booking.create({ eventId, email });
  return { success: true }\<close>

  The \<open>try\<close> and the \<open>catch\<close> that returned \<open>{ success: false }\<close> are commented out in the
  source, so an exception of either call leaves the function. The arguments of the model
  are how the connection attempts settle, whether the existence query of the hook can be
  run, and the mapper's cast.
\<close>

record actionResult =
  success :: bool

definition createBooking ::
  "(nat \<Rightarrow> error option) \<Rightarrow> error option \<Rightarrow> (jsstring \<Rightarrow> objectId option) \<Rightarrow> bookingInput
     \<Rightarrow> mongooseCache \<times> database \<Rightarrow> (error + actionResult) \<times> mongooseCache \<times> database" where
  "createBooking env existsError cast input s =
     (case connectToDatabase env (fst s) of
        (Inl e, c1) \<Rightarrow> (Inl e, c1, snd s)
      | (Inr h, c1) \<Rightarrow>
          (case bookingCreate existsError cast (snd s) input of
             Inl e \<Rightarrow> (Inl e, c1, snd s)
           | Inr db1 \<Rightarrow> (Inr \<lparr>success = True\<rparr>, c1, db1)))"

subsection \<open>Predicates and sample data for the statements about bookings\<close>

definition eventMissing :: "(jsstring \<Rightarrow> objectId option) \<Rightarrow> database \<Rightarrow> jsstring \<Rightarrow> bool" where
  "eventMissing cast db i = (case cast i of None \<Rightarrow> True | Some oid \<Rightarrow> \<not> eventExists db oid)"

text \<open>
  A booking request, the cast that takes every string as an ObjectId, and an environment
  in which every connection attempt succeeds.
\<close>

definition bookingFor :: "string \<Rightarrow> string \<Rightarrow> bookingInput" where
  "bookingFor i e = \<lparr>inputEventId = js i, inputEmail = js e\<rparr>"

definition alwaysConnects :: "nat \<Rightarrow> error option" where
  "alwaysConnects k = None"

subsection \<open>The accepted emails, stated declaratively\<close>

text \<open>
  \<open>emailShape\<close>: a local part, an \<open>@\<close>, and a domain with a dot that has characters before
  and after it, all parts non-empty and free of white space and \<open>@\<close>. \<open>specEmailOk\<close> is the
  wider reading: exactly one \<open>@\<close>, a character that is no white space on each side of it,
  and a dot somewhere after it.
\<close>

definition emailShape :: "jsstring \<Rightarrow> bool" where
  "emailShape e =
     (\<exists>l x y. e = l @ [64] @ x @ [46] @ y \<and> l \<noteq> [] \<and> x \<noteq> [] \<and> y \<noteq> []
        \<and> list_all isEmailChar (l @ x @ y))"

definition specEmailOk :: "jsstring \<Rightarrow> bool" where
  "specEmailOk e =
     (length (filter (\<lambda>c. c = 64) e) = 1
      \<and> list_ex (\<lambda>c. \<not> isWhiteSpace c) (takeWhile (\<lambda>c. c \<noteq> 64) e)
      \<and> list_ex (\<lambda>c. \<not> isWhiteSpace c) (tl (dropWhile (\<lambda>c. c \<noteq> 64) e))
      \<and> 46 \<in> set (tl (dropWhile (\<lambda>c. c \<noteq> 64) e)))"

section \<open>The route handler: \<open>src/app/api/events/[slug]/route.ts\<close>\<close>

text \<open>
  \<^verbatim>\<open>if (typeof value !== 'string') return false;
  const trimmed = value.trim();
  if (trimmed.length === 0 || trimmed.length > 200) return false;
  return true;\<close>

  The value is \<open>None\<close> when it is no string.
\<close>

definition isValidSlug :: "jsstring option \<Rightarrow> bool" where
  "isValidSlug value =
     (case value of
        None \<Rightarrow> False
      | Some s \<Rightarrow> \<not> (length (trim s) = 0 \<or> length (trim s) > 200))"

text \<open>
  The response: its status and its JSON body, \<open>{success: true, data}\<close> or
  \<open>{success: false, error: {message, code}}\<close>.
\<close>

datatype responseBody = EventResponse eventDoc | ErrorResponse string string

record response =
  status :: nat
  body :: responseBody

text \<open>
  What the handler gets from outside: the promise \<open>params\<close>, which is rejected or resolves
  to an object that may hold a slug; how the connection attempts settle; and whether the
  query can be run.
\<close>

record request =
  params :: "error + jsstring option"
  connectEnv :: "nat \<Rightarrow> error option"
  queryError :: "error option"

text \<open>\<open>Event.findOne({ slug }).lean().exec()\<close>: the first document with this slug, or \<open>null\<close>.\<close>

definition findOneBySlug :: "database \<Rightarrow> jsstring \<Rightarrow> eventDoc option" where
  "findOneBySlug db s = map_option snd (find (\<lambda>(i, d). slug d = Some s) (events db))"

text \<open>
  The handler. Every exception inside the \<open>try\<close> ends in the \<open>catch\<close>, which answers 500.
  \<open>!slug\<close> holds for a missing slug and for the empty string.
\<close>

definition badRequest :: response where
  "badRequest = \<lparr>status = 400, body = ErrorResponse ''A valid slug path parameter is required.'' ''BAD_REQUEST''\<rparr>"

definition notFound :: response where
  "notFound = \<lparr>status = 404, body = ErrorResponse ''Event not found.'' ''NOT_FOUND''\<rparr>"

definition internalError :: response where
  "internalError = \<lparr>status = 500, body = ErrorResponse ''Unexpected server error.'' ''INTERNAL_ERROR''\<rparr>"

definition GET :: "request \<Rightarrow> mongooseCache \<times> database \<Rightarrow> response \<times> mongooseCache" where
  "GET req s =
     (case params req of
        Inl e \<Rightarrow> (internalError, fst s)
      | Inr None \<Rightarrow> (badRequest, fst s)
      | Inr (Some sl) \<Rightarrow>
          if sl = [] \<or> \<not> isValidSlug (Some sl)
          then (badRequest, fst s)
          else
            (case connectToDatabase (connectEnv req) (fst s) of
               (Inl e, c1) \<Rightarrow> (internalError, c1)
             | (Inr h, c1) \<Rightarrow>
                 (case queryError req of
                    Some e \<Rightarrow> (internalError, c1)
                  | None \<Rightarrow>
                      (case findOneBySlug (snd s) sl of
                         None \<Rightarrow> (notFound, c1)
                       | Some ev \<Rightarrow> (\<lparr>status = 200, body = EventResponse ev\<rparr>, c1)))))"

subsection \<open>Predicates and sample data for the statements about the handler\<close>

text \<open>The slug parameter is present and its trimmed length is between 1 and 200.\<close>

definition slugParamOk :: "jsstring option \<Rightarrow> bool" where
  "slugParamOk sl = (case sl of None \<Rightarrow> False | Some x \<Rightarrow> 1 \<le> length (trim x) \<and> length (trim x) \<le> 200)"

text \<open>
  A store with one event, persisted under the slug \<open>rock-roll\<close>, and a request whose
  \<open>params\<close> resolves, whose connection attempts settle as given and whose query runs.
\<close>

definition persistedRock :: eventDoc where
  "persistedRock = (sampleEvent (js ''Rock & Roll''))\<lparr>slug := Some (js ''rock-roll''), time := js ''14:00''\<rparr>"

definition sampleDb :: database where
  "sampleDb = \<lparr>events = [(js ''65f000000000000000000001'', persistedRock)], bookings = []\<rparr>"

definition requestFor :: "jsstring option \<Rightarrow> (nat \<Rightarrow> error option) \<Rightarrow> request" where
  "requestFor sl env = \<lparr>params = Inr sl, connectEnv = env, queryError = None\<rparr>"

section \<open>Properties of slugify\<close>

lemma hr_chars: "\<forall>c \<in> set (hyphenateRuns b s). isSlugChar c"
  by (induction b s rule: hyphenateRuns.induct) (auto simp: isSlugChar_def)

lemma hr_head: "b \<Longrightarrow> hyphenateRuns b s = [] \<or> hd (hyphenateRuns b s) \<noteq> 45"
  by (induction b s rule: hyphenateRuns.induct) (auto simp: isSlugAlnum_def)

lemma hr_pair: "noHyphenPair (hyphenateRuns b s)"
proof (induction b s rule: hyphenateRuns.induct)
  case (1 inRun)
  then show ?case by simp
next
  case (2 inRun c cs)
  show ?case
  proof (cases "isSlugAlnum c")
    case True
    then have "c \<noteq> 45" by (auto simp: isSlugAlnum_def)
    with True 2 show ?thesis by (cases "hyphenateRuns False cs") auto
  next
    case False
    show ?thesis
    proof (cases inRun)
      case True
      with False 2 show ?thesis by simp
    next
      case f: False
      from hr_head[of True cs] have "hyphenateRuns True cs = [] \<or> hd (hyphenateRuns True cs) \<noteq> 45" by simp
      with False f 2 show ?thesis by (cases "hyphenateRuns True cs") auto
    qed
  qed
qed

lemma noHyphenPair_tl: "noHyphenPair s \<Longrightarrow> noHyphenPair (tl s)"
  by (induction s rule: noHyphenPair.induct) auto

lemma noHyphenPair_butlast: "noHyphenPair s \<Longrightarrow> noHyphenPair (butlast s)"
  by (induction s rule: noHyphenPair.induct) (auto split: if_splits)

lemma noHyphenPair_snoc: "noHyphenPair (xs @ [45]) \<Longrightarrow> xs = [] \<or> last xs \<noteq> 45"
  by (induction xs rule: noHyphenPair.induct) (auto split: if_splits)

lemma dropLeading_cases: "dropLeadingHyphen s = s \<or> dropLeadingHyphen s = tl s"
  by (auto simp: dropLeadingHyphen_def split: list.splits)

lemma dropLeading_head:
  "noHyphenPair s \<Longrightarrow> dropLeadingHyphen s = [] \<or> hd (dropLeadingHyphen s) \<noteq> 45"
proof (cases s)
  case Nil
  then show ?thesis by (simp add: dropLeadingHyphen_def)
next
  case (Cons c cs)
  assume "noHyphenPair s"
  with Cons show ?thesis by (cases cs) (auto simp: dropLeadingHyphen_def)
qed

lemma dropLeading_pair: "noHyphenPair s \<Longrightarrow> noHyphenPair (dropLeadingHyphen s)"
  using dropLeading_cases [of s] noHyphenPair_tl [of s] by auto

lemma dropTrailing_pair: "noHyphenPair s \<Longrightarrow> noHyphenPair (dropTrailingHyphen s)"
  by (simp add: dropTrailingHyphen_def noHyphenPair_butlast)

lemma dropTrailing_edge:
  assumes p: "noHyphenPair s" and h: "s = [] \<or> hd s \<noteq> 45"
  shows "edgeClean (dropTrailingHyphen s)"
proof (cases "s \<noteq> [] \<and> last s = 45")
  case True
  then have e: "butlast s @ [45] = s" by (metis append_butlast_last_id)
  with p have "noHyphenPair (butlast s @ [45])" by simp
  then have l: "butlast s = [] \<or> last (butlast s) \<noteq> 45" by (rule noHyphenPair_snoc)
  have "butlast s = [] \<or> hd (butlast s) \<noteq> 45"
    using h True by (cases s) (auto split: if_splits)
  with l True show ?thesis by (auto simp: dropTrailingHyphen_def edgeClean_def)
next
  case False
  with h show ?thesis by (auto simp: dropTrailingHyphen_def edgeClean_def)
qed

lemma strip_subset: "set (stripEdgeHyphens s) \<subseteq> set s"
  by (auto simp: stripEdgeHyphens_def dropLeadingHyphen_def dropTrailingHyphen_def
      split: list.splits if_splits dest: in_set_butlastD)

lemma strip_pair: "noHyphenPair s \<Longrightarrow> noHyphenPair (stripEdgeHyphens s)"
  by (simp add: stripEdgeHyphens_def dropLeading_pair dropTrailing_pair)

lemma strip_edgeClean: "noHyphenPair s \<Longrightarrow> edgeClean (stripEdgeHyphens s)"
  unfolding stripEdgeHyphens_def
  by (rule dropTrailing_edge) (simp_all add: dropLeading_pair dropLeading_head)

lemma strip_fix: "edgeClean s \<Longrightarrow> stripEdgeHyphens s = s"
  by (cases s) (auto simp: edgeClean_def stripEdgeHyphens_def dropLeadingHyphen_def dropTrailingHyphen_def)

lemma lowerUnit_slug: "isSlugChar c \<Longrightarrow> lowerUnit c = [c]"
  by (auto simp: isSlugChar_def isSlugAlnum_def lowerUnit_def)

lemma toLowerCase_fix: "\<forall>c \<in> set s. isSlugChar c \<Longrightarrow> toLowerCase s = s"
  by (induction s) (auto simp: lowerUnit_slug)

lemma slug_not_ws: "isSlugChar c \<Longrightarrow> \<not> isWhiteSpace c"
  by (auto simp: isSlugChar_def isSlugAlnum_def isWhiteSpace_def)

lemma dropWhile_rev_last:
  assumes "s \<noteq> []" "\<not> P (last s)"
  shows "dropWhile P (rev s) = rev s"
proof -
  from assms(1) obtain xs x where e: "s = xs @ [x]" by (cases s rule: rev_cases) auto
  with assms(2) show ?thesis by simp
qed

lemma trim_fix:
  assumes "s = [] \<or> (\<not> isWhiteSpace (hd s) \<and> \<not> isWhiteSpace (last s))"
  shows "trim s = s"
proof (cases s)
  case Nil
  then show ?thesis by (simp add: trim_def)
next
  case (Cons c cs)
  with assms have h: "\<not> isWhiteSpace c" and l: "\<not> isWhiteSpace (last s)" by auto
  from h Cons have "dropWhile isWhiteSpace s = s" by simp
  moreover from l Cons have "dropWhile isWhiteSpace (rev s) = rev s"
    by (intro dropWhile_rev_last) auto
  ultimately show ?thesis by (simp add: trim_def)
qed

lemma removeQuotes_fix: "\<forall>c \<in> set s. isSlugChar c \<Longrightarrow> removeQuotes s = s"
  unfolding removeQuotes_def
  by (rule filter_True) (auto simp: isSlugChar_def isSlugAlnum_def)

lemma hr_fix:
  "\<forall>c \<in> set s. isSlugChar c \<Longrightarrow> noHyphenPair s \<Longrightarrow> (b \<longrightarrow> s = [] \<or> hd s \<noteq> 45)
     \<Longrightarrow> hyphenateRuns b s = s"
proof (induction s arbitrary: b)
  case Nil
  then show ?case by simp
next
  case (Cons c cs)
  show ?case
  proof (cases "isSlugAlnum c")
    case True
    have "hyphenateRuns False cs = cs"
      using Cons.prems by (intro Cons.IH) (auto dest: noHyphenPair_tl)
    with True show ?thesis by simp
  next
    case False
    with Cons.prems have c: "c = 45" and nb: "\<not> b" by (auto simp: isSlugChar_def)
    have "cs = [] \<or> hd cs \<noteq> 45" using Cons.prems(2) c by (cases cs) auto
    then have "hyphenateRuns True cs = cs"
      using Cons.prems by (intro Cons.IH) (auto dest: noHyphenPair_tl)
    with False c nb show ?thesis by simp
  qed
qed

text \<open>
  C4. For every title, \<open>slugify input\<close> consists of characters of \<open>[a-z0-9-]\<close> only, is
  lower-case (lower-casing it changes nothing), has no hyphen at either end, and slugifying
  it again gives the same string.
\<close>

theorem slugify_wellformed_idempotent:
  "(\<forall>c \<in> set (slugify input). isSlugChar c)
   \<and> toLowerCase (slugify input) = slugify input
   \<and> (slugify input \<noteq> [] \<longrightarrow> hd (slugify input) \<noteq> 45 \<and> last (slugify input) \<noteq> 45)
   \<and> slugify (slugify input) = slugify input"
proof -
  define h where "h = hyphenateRuns False (removeQuotes (trim (toLowerCase input)))"
  have r: "slugify input = stripEdgeHyphens h" by (simp add: slugify_def h_def)
  have hc: "\<forall>c \<in> set h. isSlugChar c" unfolding h_def by (rule hr_chars)
  have hp: "noHyphenPair h" unfolding h_def by (rule hr_pair)
  have chars: "\<forall>c \<in> set (slugify input). isSlugChar c"
    using hc strip_subset [of h] by (auto simp: r)
  have pair: "noHyphenPair (slugify input)" using hp by (simp add: r strip_pair)
  have edge: "edgeClean (slugify input)" using hp by (simp add: r strip_edgeClean)
  have low: "toLowerCase (slugify input) = slugify input" using chars by (rule toLowerCase_fix)
  have tr: "trim (slugify input) = slugify input"
  proof (rule trim_fix, cases "slugify input = []")
    case True
    then show "slugify input = [] \<or> (\<not> isWhiteSpace (hd (slugify input)) \<and> \<not> isWhiteSpace (last (slugify input)))"
      by simp
  next
    case False
    then have "hd (slugify input) \<in> set (slugify input)" "last (slugify input) \<in> set (slugify input)"
      by simp_all
    with chars show "slugify input = [] \<or> (\<not> isWhiteSpace (hd (slugify input)) \<and> \<not> isWhiteSpace (last (slugify input)))"
      by (auto dest: slug_not_ws)
  qed
  have rq: "removeQuotes (slugify input) = slugify input" using chars by (rule removeQuotes_fix)
  have hf: "hyphenateRuns False (slugify input) = slugify input"
    using chars pair by (intro hr_fix) auto
  have sf: "stripEdgeHyphens (slugify input) = slugify input" using edge by (rule strip_fix)
  have idem: "slugify (slugify input) = slugify input"
    by (subst (1) slugify_def) (simp only: low tr rq hf sf)
  from chars low edge idem show ?thesis unfolding edgeClean_def by blast
qed

lemmas slug_eval = js_def slugify_def lowerUnit_def trim_def isWhiteSpace_def
  removeQuotes_def isSlugAlnum_def isSlugChar_def stripEdgeHyphens_def dropLeadingHyphen_def
  dropTrailingHyphen_def

theorem slugify_wellformed_idempotent_witness:
  "slugify (js ''  Rock & Roll: Bob`s 2025! '') = js ''rock-roll-bobs-2025''
   \<and> slugify (js ''rock-roll-bobs-2025'') = js ''rock-roll-bobs-2025''
   \<and> hd (js ''rock-roll-bobs-2025'') \<noteq> 45 \<and> last (js ''rock-roll-bobs-2025'') \<noteq> 45
   \<and> list_all isSlugChar (js ''rock-roll-bobs-2025'')"
proof -
  have e: "slugify (js ''  Rock & Roll: Bob`s 2025! '') = js ''rock-roll-bobs-2025''"
    by (simp add: slug_eval)
  have n: "js ''rock-roll-bobs-2025'' \<noteq> []" by (simp add: js_def)
  show ?thesis
    using slugify_wellformed_idempotent [of "js ''  Rock & Roll: Bob`s 2025! ''"] n
    unfolding e by (simp add: list_all_iff)
qed

section \<open>Properties of normalizeTime\<close>

lemma matchEnd_iff: "matchEnd r = list_all isWhiteSpace r"
  by (simp add: matchEnd_def list_all_iff)

lemma ws_split: "\<exists>w. s = w @ dropWhile isWhiteSpace s \<and> list_all isWhiteSpace w"
proof -
  have "s = takeWhile isWhiteSpace s @ dropWhile isWhiteSpace s" by simp
  moreover have "list_all isWhiteSpace (takeWhile isWhiteSpace s)"
    by (auto simp: list_all_iff dest: set_takeWhileD)
  ultimately show ?thesis by blast
qed

lemma matchTail_sound:
  assumes "matchTail r = Some g"
  shows "\<exists>w2 w3. r = w2 @ capture g @ w3 \<and> list_all isWhiteSpace w2 \<and> list_all isWhiteSpace w3
           \<and> (g = None \<or> isAmPm (capture g))"
proof -
  obtain w where w: "r = w @ dropWhile isWhiteSpace r" "list_all isWhiteSpace w"
    using ws_split by blast
  define r1 where "r1 = dropWhile isWhiteSpace r"
  show ?thesis
  proof (cases "\<exists>a m r2. r1 = a # m # r2 \<and> isAorP a \<and> isM m \<and> matchEnd r2")
    case True
    then obtain a m r2 where t: "r1 = a # m # r2" "isAorP a" "isM m" "matchEnd r2" by blast
    with assms have "g = Some [a, m]"
      by (simp add: matchTail_def r1_def[symmetric] orElse_def)
    moreover have "r = w @ [a, m] @ r2" using w t by (simp add: r1_def)
    ultimately show ?thesis using w t
      by (intro exI [of _ w] exI [of _ r2]) (simp add: capture_def isAmPm_def matchEnd_iff)
  next
    case False
    then have "(case r1 of a # m # r2 \<Rightarrow> if isAorP a \<and> isM m \<and> matchEnd r2 then Some (Some [a, m]) else None
         | _ \<Rightarrow> None) = None"
      by (auto split: list.splits)
    with assms have "matchEnd r1 \<and> g = None"
      by (simp add: matchTail_def r1_def[symmetric] orElse_def Let_def split: if_splits)
    then have "list_all isWhiteSpace r1" "g = None" by (simp_all add: matchEnd_iff)
    moreover have "r = w @ [] @ r1" using w by (simp add: r1_def)
    ultimately show ?thesis using w by (auto simp: capture_def)
  qed
qed

lemma matchTwoDigits_sound:
  assumes "matchTwoDigits r = Some (g2, g3)"
  shows "\<exists>d1 d2 r1. r = d1 # d2 # r1 \<and> isDigit d1 \<and> isDigit d2 \<and> g2 = Some [d1, d2]
           \<and> matchTail r1 = Some g3"
  using assms by (auto simp: matchTwoDigits_def split: list.splits if_splits)

lemma matchMinutes_sound:
  assumes "matchMinutes r = Some (g2, g3)"
  shows "\<exists>sep r1. r = sep @ capture g2 @ r1 \<and> matchTail r1 = Some g3
           \<and> ((g2 = None \<and> sep = []) \<or>
               (g2 \<noteq> None \<and> length (capture g2) = 2 \<and> list_all isDigit (capture g2)
                  \<and> (sep = [] \<or> sep = [58])))"
proof -
  consider (colon) r0 where "r = 58 # r0" "matchTwoDigits r0 = Some (g2, g3)"
    | (plain) "matchTwoDigits r = Some (g2, g3)"
    | (none) "g2 = None" "matchTail r = Some g3"
    using assms
    by (auto simp: matchMinutes_def orElse_def split: option.splits list.splits if_splits)
  then show ?thesis
  proof cases
    case colon
    from matchTwoDigits_sound [OF colon(2)] obtain d1 d2 r1 where
      "r0 = d1 # d2 # r1" "isDigit d1" "isDigit d2" "g2 = Some [d1, d2]" "matchTail r1 = Some g3"
      by blast
    with colon(1) show ?thesis
      by (intro exI [of _ "[58]"] exI [of _ r1]) (simp add: capture_def)
  next
    case plain
    from matchTwoDigits_sound [OF plain] obtain d1 d2 r1 where
      "r = d1 # d2 # r1" "isDigit d1" "isDigit d2" "g2 = Some [d1, d2]" "matchTail r1 = Some g3"
      by blast
    then show ?thesis
      by (intro exI [of _ "[]"] exI [of _ r1]) (simp add: capture_def)
  next
    case none
    then show ?thesis
      by (intro exI [of _ "[]"] exI [of _ r]) (simp add: capture_def)
  qed
qed

lemma matchTime_sound:
  assumes "matchTime s = Some (g1, g2, g3)"
  shows "timeForm s g1 (capture g2) (capture g3)"
proof -
  obtain w1 where w1: "s = w1 @ dropWhile isWhiteSpace s" "list_all isWhiteSpace w1"
    using ws_split by blast
  define r where "r = dropWhile isWhiteSpace s"
  have "\<exists>r1. r = g1 @ r1 \<and> list_all isDigit g1 \<and> (length g1 = 1 \<or> length g1 = 2)
           \<and> matchMinutes r1 = Some (g2, g3)"
    using assms
    by (auto simp: matchTime_def r_def[symmetric] orElse_def Let_def
        split: option.splits list.splits if_splits)
  then obtain r1 where r1: "r = g1 @ r1" "list_all isDigit g1" "length g1 = 1 \<or> length g1 = 2"
    "matchMinutes r1 = Some (g2, g3)" by blast
  from matchMinutes_sound [OF r1(4)] obtain sep r2 where
    m: "r1 = sep @ capture g2 @ r2" "matchTail r2 = Some g3"
    "(g2 = None \<and> sep = []) \<or>
       (g2 \<noteq> None \<and> length (capture g2) = 2 \<and> list_all isDigit (capture g2) \<and> (sep = [] \<or> sep = [58]))"
    by blast
  from matchTail_sound [OF m(2)] obtain w2 w3 where
    t: "r2 = w2 @ capture g3 @ w3" "list_all isWhiteSpace w2" "list_all isWhiteSpace w3"
    "g3 = None \<or> isAmPm (capture g3)" by blast
  have e: "s = w1 @ g1 @ sep @ capture g2 @ w2 @ capture g3 @ w3"
    using w1(1) r1(1) m(1) t(1) by (simp add: r_def)
  have c2: "(capture g2 = [] \<and> sep = []) \<or>
       (length (capture g2) = 2 \<and> list_all isDigit (capture g2) \<and> (sep = [] \<or> sep = [58]))"
    using m(3) by (auto simp: capture_def)
  have c3: "capture g3 = [] \<or> isAmPm (capture g3)" using t(4) by (auto simp: capture_def)
  show ?thesis unfolding timeForm_def
    using e w1(2) t(2,3) r1(2,3) c2 c3 by blast
qed

lemma dropWhile_hd: "x = [] \<or> \<not> P (hd x) \<Longrightarrow> dropWhile P x = x"
  by (cases x) auto

lemma dropWhile_ws_append:
  "list_all isWhiteSpace w \<Longrightarrow> x = [] \<or> \<not> isWhiteSpace (hd x)
     \<Longrightarrow> dropWhile isWhiteSpace (w @ x) = x"
  by (induction w) (simp_all add: dropWhile_hd)

lemma ws_not_digit: "isWhiteSpace c \<Longrightarrow> \<not> isDigit c \<and> c \<noteq> 58 \<and> \<not> isAorP c"
  by (auto simp: isWhiteSpace_def isDigit_def isAorP_def)

lemma ap_not_digit: "isAorP c \<Longrightarrow> \<not> isDigit c \<and> c \<noteq> 58 \<and> \<not> isWhiteSpace c"
  by (auto simp: isWhiteSpace_def isDigit_def isAorP_def)

lemma digit_not_ws: "isDigit c \<or> c = 58 \<Longrightarrow> \<not> isWhiteSpace c \<and> \<not> isAorP c"
  by (auto simp: isWhiteSpace_def isDigit_def isAorP_def)

lemma matchTail_complete:
  assumes "list_all isWhiteSpace w2" "list_all isWhiteSpace w3" "ap = [] \<or> isAmPm ap"
  shows "matchTail (w2 @ ap @ w3) = Some (optCapture ap)"
proof (cases "ap = []")
  case True
  have r1: "dropWhile isWhiteSpace (w2 @ ap @ w3) = []"
    using assms(1,2) True by (simp add: list_all_iff)
  show ?thesis unfolding matchTail_def Let_def r1
    by (simp add: optCapture_def matchEnd_def orElse_def True)
next
  case False
  with assms(3) obtain a m where ap: "ap = [a, m]" "isAorP a" "isM m"
    by (auto simp: isAmPm_def split: list.splits)
  have "dropWhile isWhiteSpace (w2 @ (a # m # w3)) = a # m # w3"
    using assms(1) ap(2) by (intro dropWhile_ws_append) (auto dest: ap_not_digit)
  then have r1: "dropWhile isWhiteSpace (w2 @ ap @ w3) = a # m # w3" by (simp add: ap(1))
  show ?thesis unfolding matchTail_def Let_def r1
    using ap assms(2) by (simp add: optCapture_def matchEnd_iff orElse_def)
qed

lemma tail_tailStart:
  assumes "list_all isWhiteSpace w2" "list_all isWhiteSpace w3" "ap = [] \<or> isAmPm ap"
  shows "tailStart (w2 @ ap @ w3)"
proof (cases w2)
  case (Cons c cs)
  with assms(1) show ?thesis by (auto simp: tailStart_def dest: ws_not_digit)
next
  case Nil
  show ?thesis
  proof (cases "ap = []")
    case True
    with Nil assms(2) show ?thesis
      by (cases w3) (auto simp: tailStart_def dest: ws_not_digit)
  next
    case False
    with assms(3) Nil show ?thesis
      by (auto simp: isAmPm_def tailStart_def dest: ap_not_digit split: list.splits)
  qed
qed

lemma matchTail_digit:
  assumes "isDigit d \<or> d = 58"
  shows "matchTail (d # r) = None"
proof -
  from assms have "\<not> isWhiteSpace d" "\<not> isAorP d" using digit_not_ws by auto
  then show ?thesis
    by (auto simp: matchTail_def matchEnd_def orElse_def split: list.splits)
qed

lemma matchTwoDigits_tailStart: "tailStart r \<Longrightarrow> matchTwoDigits r = None"
  by (auto simp: tailStart_def matchTwoDigits_def split: list.splits)

lemma matchTwoDigits_one: "tailStart r \<Longrightarrow> matchTwoDigits (d # r) = None"
  by (auto simp: tailStart_def matchTwoDigits_def split: list.splits)

lemma matchMinutes_complete:
  assumes t: "matchTail r = Some g3" and ts: "tailStart r"
    and f: "(ms = [] \<and> sep = []) \<or> (length ms = 2 \<and> list_all isDigit ms \<and> (sep = [] \<or> sep = [58]))"
  shows "matchMinutes (sep @ ms @ r) = Some (optCapture ms, g3)"
proof (cases "ms = []")
  case True
  with f have e: "sep = []" by auto
  have "(case r of c # r1 \<Rightarrow> if c = 58 then matchTwoDigits r1 else None | [] \<Rightarrow> None) = None"
    using ts by (auto simp: tailStart_def split: list.splits)
  then show ?thesis using t ts True
    by (simp add: e matchMinutes_def orElse_def matchTwoDigits_tailStart optCapture_def)
next
  case False
  with f obtain d1 d2 where ms: "ms = [d1, d2]" "isDigit d1" "isDigit d2" and sep: "sep = [] \<or> sep = [58]"
    by (cases ms; cases "tl ms") auto
  have two: "matchTwoDigits (d1 # d2 # r) = Some (Some [d1, d2], g3)"
    using ms t by (simp add: matchTwoDigits_def)
  from sep show ?thesis
  proof
    assume "sep = []"
    moreover have "d1 \<noteq> 58" using ms(2) by (auto simp: isDigit_def)
    ultimately show ?thesis using two ms(1)
      by (simp add: matchMinutes_def orElse_def optCapture_def)
  next
    assume "sep = [58]"
    then show ?thesis using two ms(1)
      by (simp add: matchMinutes_def orElse_def optCapture_def)
  qed
qed

lemma matchMinutes_one_digit:
  assumes "isDigit y" "tailStart r"
  shows "matchMinutes (y # r) = None"
proof -
  have "y \<noteq> 58" using assms(1) by (auto simp: isDigit_def)
  then show ?thesis using assms
    by (simp add: matchMinutes_def orElse_def matchTwoDigits_one matchTail_digit)
qed

lemma matchTime_complete:
  assumes "timeForm s hs ms ap"
  shows "matchTime s = Some (hs, optCapture ms, optCapture ap)"
proof -
  from assms obtain w1 sep w2 w3 where
    e: "s = w1 @ hs @ sep @ ms @ w2 @ ap @ w3"
    and w: "list_all isWhiteSpace w1" "list_all isWhiteSpace w2" "list_all isWhiteSpace w3"
    and h: "list_all isDigit hs" "length hs = 1 \<or> length hs = 2"
    and f: "(ms = [] \<and> sep = []) \<or> (length ms = 2 \<and> list_all isDigit ms \<and> (sep = [] \<or> sep = [58]))"
    and a: "ap = [] \<or> isAmPm ap"
    unfolding timeForm_def by blast
  define r where "r = w2 @ ap @ w3"
  have t: "matchTail r = Some (optCapture ap)" unfolding r_def using w(2,3) a by (rule matchTail_complete)
  have ts: "tailStart r" unfolding r_def using w(2,3) a by (rule tail_tailStart)
  have mm: "matchMinutes (sep @ ms @ r) = Some (optCapture ms, optCapture ap)"
    using t ts f by (rule matchMinutes_complete)
  from h obtain h1 hs' where hne: "hs = h1 # hs'" "isDigit h1" by (cases hs) auto
  have "\<not> isWhiteSpace (hd (hs @ sep @ ms @ r))"
    using hne digit_not_ws [of h1] by simp
  then have "dropWhile isWhiteSpace (w1 @ (hs @ sep @ ms @ r)) = hs @ sep @ ms @ r"
    using w(1) by (intro dropWhile_ws_append) simp_all
  then have d: "dropWhile isWhiteSpace s = hs @ sep @ ms @ r" by (simp add: e r_def)
  from h(2) show ?thesis
  proof
    assume "length hs = 2"
    with h(1) obtain h2 where hs: "hs = [h1, h2]" "isDigit h2"
      using hne by (cases hs') auto
    show ?thesis using mm hs hne(2)
      by (simp add: matchTime_def d orElse_def)
  next
    assume "length hs = 1"
    with hne have hs: "hs = [h1]" by auto
    have first: "(case hs @ sep @ ms @ r of
           d1 # d2 # r1 \<Rightarrow>
             if isDigit d1 \<and> isDigit d2
             then map_option (\<lambda>g. ([d1, d2], g)) (matchMinutes r1)
             else None
         | _ \<Rightarrow> None) = None"
    proof (cases "ms = []")
      case True
      with f have "sep @ ms @ r = r" by auto
      then show ?thesis using ts hs
        by (auto simp: tailStart_def split: list.splits)
    next
      case False
      with f obtain d1 d2 where ms: "ms = [d1, d2]" "isDigit d1" "isDigit d2" and sep: "sep = [] \<or> sep = [58]"
        by (cases ms; cases "tl ms") auto
      from sep show ?thesis
      proof
        assume "sep = []"
        then show ?thesis using hs ms ts
          by (simp add: matchMinutes_one_digit)
      next
        assume "sep = [58]"
        then show ?thesis using hs by (simp add: isDigit_def)
      qed
    qed
    show ?thesis using mm hs hne(2) first
      by (simp add: matchTime_def d orElse_def Let_def)
  qed
qed

lemma capture_optCapture: "capture (optCapture x) = x"
  by (simp add: capture_def optCapture_def)

lemma lowerUnit_nonempty: "lowerUnit c \<noteq> []"
  by (simp add: lowerUnit_def)

lemma toLowerCase_Nil_iff: "(toLowerCase s = []) = (s = [])"
  by (cases s) (simp_all add: lowerUnit_nonempty)

lemma parseDec_default: "parseDec (case g of None \<Rightarrow> [48] | Some s \<Rightarrow> s) = parseDec (capture g)"
  by (simp add: capture_def parseDec_def split: option.splits)

lemma showNat_two:
  "n < 100 \<Longrightarrow> padStart0 2 (showNat n) = [48 + n div 10, 48 + n mod 10]"
proof (cases "n < 10")
  case True
  then show ?thesis by (simp add: showNat.simps [of n] padStart0_def)
next
  case False
  assume "n < 100"
  then have "n div 10 < 10" by simp
  then have "showNat (n div 10) = [48 + n div 10]" by (simp add: showNat.simps [of "n div 10"])
  with False show ?thesis by (simp add: showNat.simps [of n] padStart0_def)
qed

lemma adjustHours_clockHour: "adjustHours (parseDec hs) (toLowerCase ap) = clockHour hs ap"
  by (simp add: adjustHours_def clockHour_def toLowerCase_Nil_iff Let_def)

lemma normalizeTime_of_match:
  assumes "matchTime (trim v) = Some (g1, g2, g3)"
  shows "normalizeTime v =
     (if clockHour g1 (capture g3) > 23 \<or> parseDec (capture g2) > 59
      then Inl (Error ''time is invalid'')
      else Inr (clockText (clockHour g1 (capture g3)) (parseDec (capture g2))))"
proof -
  have a: "adjustHours (parseDec g1) (toLowerCase (case g3 of None \<Rightarrow> [] | Some s \<Rightarrow> s))
             = clockHour g1 (capture g3)"
    using adjustHours_clockHour [of g1 "capture g3"] by (simp add: capture_def)
  show ?thesis
    unfolding normalizeTime_def Let_def assms
    by (simp add: a parseDec_default showNat_two clockText_def)
qed

lemma normalizeTime_no_match:
  "matchTime (trim v) = None \<Longrightarrow> normalizeTime v = Inl (Error ''time is invalid'')"
  by (simp add: normalizeTime_def)

lemma normalizeTime_error: "normalizeTime v = Inl e \<Longrightarrow> e = Error ''time is invalid''"
proof (cases "matchTime (trim v)")
  case None
  assume "normalizeTime v = Inl e"
  with None show ?thesis by (simp add: normalizeTime_no_match)
next
  case (Some g)
  assume a: "normalizeTime v = Inl e"
  obtain g1 g2 g3 where "g = (g1, g2, g3)" by (cases g)
  with Some have "matchTime (trim v) = Some (g1, g2, g3)" by simp
  from normalizeTime_of_match [OF this] a show ?thesis by (simp split: if_splits)
qed

lemma normalizeTime_iff:
  "(normalizeTime v = Inr out) =
     (\<exists>hs ms ap. timeForm (trim v) hs ms ap \<and> clockHour hs ap \<le> 23 \<and> parseDec ms \<le> 59
        \<and> out = clockText (clockHour hs ap) (parseDec ms))"
proof
  assume a: "normalizeTime v = Inr out"
  then obtain g where g: "matchTime (trim v) = Some g"
    by (cases "matchTime (trim v)") (simp_all add: normalizeTime_no_match)
  obtain g1 g2 g3 where "g = (g1, g2, g3)" by (cases g)
  with g have m: "matchTime (trim v) = Some (g1, g2, g3)" by simp
  from normalizeTime_of_match [OF m] a
  have "clockHour g1 (capture g3) \<le> 23 \<and> parseDec (capture g2) \<le> 59
          \<and> out = clockText (clockHour g1 (capture g3)) (parseDec (capture g2))"
    by (simp split: if_splits)
  with matchTime_sound [OF m] show "\<exists>hs ms ap. timeForm (trim v) hs ms ap \<and> clockHour hs ap \<le> 23
      \<and> parseDec ms \<le> 59 \<and> out = clockText (clockHour hs ap) (parseDec ms)"
    by blast
next
  assume "\<exists>hs ms ap. timeForm (trim v) hs ms ap \<and> clockHour hs ap \<le> 23 \<and> parseDec ms \<le> 59
        \<and> out = clockText (clockHour hs ap) (parseDec ms)"
  then obtain hs ms ap where f: "timeForm (trim v) hs ms ap" and r: "clockHour hs ap \<le> 23"
    "parseDec ms \<le> 59" "out = clockText (clockHour hs ap) (parseDec ms)" by blast
  from normalizeTime_of_match [OF matchTime_complete [OF f]] r
  show "normalizeTime v = Inr out" by (simp add: capture_optCapture)
qed

lemmas time_eval = js_def normalizeTime_def matchTime_def matchMinutes_def matchTwoDigits_def
  matchTail_def matchEnd_def orElse_def isAorP_def isM_def isDigit_def parseDec_def padStart0_def
  adjustHours_def trim_def isWhiteSpace_def lowerUnit_def showNat.simps

text \<open>
  C3 (as amended). \<open>normalizeTime\<close> returns a time exactly for the inputs that, once trimmed,
  have the form \<open>timeForm\<close>: one or two hour digits, optionally two minute digits with or
  without a colon before them (\<open>H\<close>, \<open>HH\<close>, \<open>H:mm\<close>, \<open>HH:mm\<close>, \<open>Hmm\<close>, \<open>HHmm\<close>), optional
  white space and an optional case-insensitive \<open>am\<close>/\<open>pm\<close>, and whose hour, after 12 is
  mapped to 0 and 12 is added for \<open>pm\<close> when a suffix is present, is at most 23 and whose
  minute is at most 59; the result is the zero-padded \<open>HH:mm\<close>. Every other input fails
  with \<open>time is invalid\<close>. The four examples of the specification hold.
\<close>

theorem normalizeTime_accepts:
  "((normalizeTime v = Inr out) =
     (\<exists>hs ms ap. timeForm (trim v) hs ms ap \<and> clockHour hs ap \<le> 23 \<and> parseDec ms \<le> 59
        \<and> out = clockText (clockHour hs ap) (parseDec ms)))
   \<and> (normalizeTime v = Inl e \<longrightarrow> e = Error ''time is invalid'')
   \<and> normalizeTime (js ''2pm'') = Inr (js ''14:00'')
   \<and> normalizeTime (js ''12am'') = Inr (js ''00:00'')
   \<and> normalizeTime (js ''9:05'') = Inr (js ''09:05'')
   \<and> normalizeTime (js ''25:00'') = Inl (Error ''time is invalid'')"
proof -
  have 1: "(normalizeTime v = Inr out) =
     (\<exists>hs ms ap. timeForm (trim v) hs ms ap \<and> clockHour hs ap \<le> 23 \<and> parseDec ms \<le> 59
        \<and> out = clockText (clockHour hs ap) (parseDec ms))"
    by (rule normalizeTime_iff)
  have 2: "normalizeTime v = Inl e \<longrightarrow> e = Error ''time is invalid''"
    using normalizeTime_error by blast
  have 3: "normalizeTime (js ''2pm'') = Inr (js ''14:00'')" by (simp add: time_eval)
  have 4: "normalizeTime (js ''12am'') = Inr (js ''00:00'')" by (simp add: time_eval)
  have 5: "normalizeTime (js ''9:05'') = Inr (js ''09:05'')" by (simp add: time_eval)
  have 6: "normalizeTime (js ''25:00'') = Inl (Error ''time is invalid'')" by (simp add: time_eval)
  from 1 2 3 4 5 6 show ?thesis by blast
qed

text \<open>
  The theorem at \<open>0930 pm\<close>, whose form is shown by hand and whose result then follows from
  the theorem, and at \<open>9:5\<close>, which fails.
\<close>

theorem normalizeTime_accepts_witness:
  "timeForm (trim (js ''0930 pm'')) (js ''09'') (js ''30'') (js ''pm'')
   \<and> normalizeTime (js ''0930 pm'') = Inr (js ''21:30'')
   \<and> normalizeTime (js ''9:5'') = Inl (Error ''time is invalid'')"
proof -
  have t: "trim (js ''0930 pm'') = js ''0930 pm''"
    by (simp add: js_def trim_def isWhiteSpace_def)
  have f: "timeForm (trim (js ''0930 pm'')) (js ''09'') (js ''30'') (js ''pm'')"
    unfolding t timeForm_def
    by (intro exI [of _ "[]"] exI [of _ "js '' ''"])
      (simp add: js_def isWhiteSpace_def isDigit_def isAmPm_def isAorP_def isM_def)
  have h: "clockHour (js ''09'') (js ''pm'') = 21"
    by (simp add: clockHour_def js_def parseDec_def lowerUnit_def)
  have m: "parseDec (js ''30'') = 30" by (simp add: js_def parseDec_def)
  have o: "clockText 21 30 = js ''21:30''" by (simp add: clockText_def js_def)
  have e: "normalizeTime (js ''9:5'') = Inl (Error ''time is invalid'')" by (simp add: time_eval)
  have x: "\<exists>hs ms ap. timeForm (trim (js ''0930 pm'')) hs ms ap \<and> clockHour hs ap \<le> 23
      \<and> parseDec ms \<le> 59 \<and> js ''21:30'' = clockText (clockHour hs ap) (parseDec ms)"
    by (intro exI [of _ "js ''09''"] exI [of _ "js ''30''"] exI [of _ "js ''pm''"])
      (simp add: f h m o)
  have "normalizeTime (js ''0930 pm'') = Inr (js ''21:30'')"
    using normalizeTime_accepts [of "js ''0930 pm''" "js ''21:30''" "Error ''time is invalid''"] x
    by blast
  with f e show ?thesis by simp
qed

text \<open>
  The claim as it was stated fails: \<open>1430\<close> is none of \<open>H\<close>, \<open>HH\<close>, \<open>H:mm\<close>, \<open>HH:mm\<close> with an
  optional \<open>am\<close>/\<open>pm\<close>, and it is accepted.
\<close>

theorem normalizeTime_pattern_counterexample:
  "\<not> specTimePattern (js ''1430'') \<and> normalizeTime (js ''1430'') = Inr (js ''14:30'')"
  by (simp add: time_eval specTimePattern_def isClockCore_def isHourDigits_def isAmPm_def)

section \<open>normalizeDate on a year below 1000\<close>

lemmas show_eval = showInt_def padStart0_def showNat.simps js_def

lemma civilFromDays_year99: "civilFromDays (- 683368) = (99, 1, 1)"
  unfolding civilFromDays_def Let_def by simp

lemma utcDay_year99: "utcDay (- 59042995200000) = - 683368"
  by (simp add: utcDay_def msPerDay_def)

lemma isoDateOnlyParse_year99: "isoDateOnlyParse (js ''0099-01-01'') = Some (- 59042995200000)"
proof -
  have "daysFromCivil 99 1 1 = - 683368"
    unfolding daysFromCivil_def Let_def by simp
  then show ?thesis
    by (simp add: isoDateOnlyParse_def js_def isDigit_def parseDec_def daysInMonth_def msPerDay_def)
qed

lemma normalizeDate_year99_object:
  "normalizeDate dateParse (DateObject (Some (- 59042995200000))) = Inr (js ''99-01-01'')"
  by (simp add: normalizeDate_def getUTCFullYear_def getUTCMonth_def getUTCDate_def
      utcDay_year99 civilFromDays_year99 show_eval)

text \<open>
  C5. The date \<open>0099-01-01\<close>, a string of the ECMAScript date-only form and a calendar date,
  is normalized to \<open>99-01-01\<close>: the month and the day are padded to two digits and the year
  is written as it is, so the result has eight characters and is not of the form
  \<open>YYYY-MM-DD\<close>. The same holds for the \<open>Date\<close> object of that day, whatever the parser.
\<close>

theorem normalizeDate_year_not_padded:
  "normalizeDate isoDateOnlyParse (DateString (js ''0099-01-01'')) = Inr (js ''99-01-01'')
   \<and> normalizeDate dateParse (DateObject (Some (- 59042995200000))) = Inr (js ''99-01-01'')
   \<and> length (js ''99-01-01'') = 8"
proof -
  have "normalizeDate isoDateOnlyParse (DateString (js ''0099-01-01''))
          = normalizeDate isoDateOnlyParse (DateObject (Some (- 59042995200000)))"
    by (simp add: normalizeDate_def isoDateOnlyParse_year99)
  then show ?thesis
    by (simp add: normalizeDate_year99_object) (simp add: js_def)
qed

section \<open>Properties of the Event pre-save hook\<close>

lemma thenDo_Inr: "thenDo r f = Inr y \<Longrightarrow> \<exists>x. r = Inr x \<and> f x = Inr y"
  by (cases r) (simp_all add: thenDo_def)

lemma trim_edges:
  "trim s = [] \<or> (\<not> isWhiteSpace (hd (trim s)) \<and> \<not> isWhiteSpace (last (trim s)))"
proof -
  define a where "a = dropWhile isWhiteSpace s"
  define b where "b = dropWhile isWhiteSpace (rev a)"
  have t: "trim s = rev b" by (simp add: trim_def a_def b_def)
  show ?thesis
  proof (cases "b = []")
    case True
    with t show ?thesis by simp
  next
    case False
    then have hb: "\<not> isWhiteSpace (hd b)" unfolding b_def by (metis hd_dropWhile)
    from False have ne: "rev a \<noteq> []" unfolding b_def by auto
    have "rev a = takeWhile isWhiteSpace (rev a) @ b" by (simp add: b_def)
    then have "last (rev a) = last b" using False by (metis last_appendR)
    then have "last b = hd a" using ne by (simp add: last_rev)
    moreover have "\<not> isWhiteSpace (hd a)" using ne unfolding a_def by (metis hd_dropWhile rev_is_Nil_conv)
    ultimately have "\<not> isWhiteSpace (last b)" by simp
    with hb False t show ?thesis by (simp add: hd_rev last_rev)
  qed
qed

lemma trim_idem: "trim (trim s) = trim s"
  using trim_edges [of s] by (rule trim_fix)

lemma set_trim: "set (trim s) \<subseteq> set s"
proof -
  have "set (trim s) \<subseteq> set (dropWhile isWhiteSpace s)"
    unfolding trim_def using set_dropWhileD by fastforce
  then show ?thesis using set_dropWhileD by fastforce
qed

lemma sanitizeField_Inr:
  "sanitizeField get put field d = Inr d' \<Longrightarrow>
     \<exists>s. get d = Some s \<and> trim s \<noteq> [] \<and> d' = put (trim s) d"
  by (auto simp: sanitizeField_def thenDo_def assertNonEmpty_def split: option.splits if_splits)

lemma sanitizeStrings_Inr:
  assumes "sanitizeStrings d = Inr d'"
  shows "\<exists>t. title d = Some t \<and> trim t \<noteq> [] \<and> title d' = Some (trim t)
           \<and> titleModified d' = (titleModified d \<or> t \<noteq> trim t)
           \<and> slug d' = slug d \<and> agenda d' = agenda d \<and> tags d' = tags d
           \<and> date d' = date d \<and> time d' = time d"
proof -
  from assms obtain d1 d2 d3 d4 d5 d6 d7 d8 where
    s1: "sanitizeField title assignTitle ''title'' d = Inr d1" and
    s2: "sanitizeField description (\<lambda>v d. d\<lparr>description := Some v\<rparr>) ''description'' d1 = Inr d2" and
    s3: "sanitizeField overview (\<lambda>v d. d\<lparr>overview := Some v\<rparr>) ''overview'' d2 = Inr d3" and
    s4: "sanitizeField image_url (\<lambda>v d. d\<lparr>image_url := Some v\<rparr>) ''image'' d3 = Inr d4" and
    s5: "sanitizeField venue (\<lambda>v d. d\<lparr>venue := Some v\<rparr>) ''venue'' d4 = Inr d5" and
    s6: "sanitizeField location (\<lambda>v d. d\<lparr>location := Some v\<rparr>) ''location'' d5 = Inr d6" and
    s7: "sanitizeField mode (\<lambda>v d. d\<lparr>mode := Some v\<rparr>) ''mode'' d6 = Inr d7" and
    s8: "sanitizeField audience (\<lambda>v d. d\<lparr>audience := Some v\<rparr>) ''audience'' d7 = Inr d8" and
    s9: "sanitizeField organizer (\<lambda>v d. d\<lparr>organizer := Some v\<rparr>) ''organizer'' d8 = Inr d'"
    unfolding sanitizeStrings_def by (blast dest!: thenDo_Inr)
  from sanitizeField_Inr [OF s1] obtain t where
    t: "title d = Some t" "trim t \<noteq> []" "d1 = assignTitle (trim t) d" by blast
  have k: "\<And>a b. (\<exists>s. b = a\<lparr>description := Some s\<rparr>) \<or> (\<exists>s. b = a\<lparr>overview := Some s\<rparr>)
      \<or> (\<exists>s. b = a\<lparr>image_url := Some s\<rparr>) \<or> (\<exists>s. b = a\<lparr>venue := Some s\<rparr>)
      \<or> (\<exists>s. b = a\<lparr>location := Some s\<rparr>) \<or> (\<exists>s. b = a\<lparr>mode := Some s\<rparr>)
      \<or> (\<exists>s. b = a\<lparr>audience := Some s\<rparr>) \<or> (\<exists>s. b = a\<lparr>organizer := Some s\<rparr>)
      \<Longrightarrow> title b = title a \<and> titleModified b = titleModified a \<and> slug b = slug a
          \<and> agenda b = agenda a \<and> tags b = tags a \<and> date b = date a \<and> time b = time a"
    by auto
  have e2: "title d2 = title d1 \<and> titleModified d2 = titleModified d1 \<and> slug d2 = slug d1
          \<and> agenda d2 = agenda d1 \<and> tags d2 = tags d1 \<and> date d2 = date d1 \<and> time d2 = time d1"
    using sanitizeField_Inr [OF s2] by (intro k) blast
  have e3: "title d3 = title d2 \<and> titleModified d3 = titleModified d2 \<and> slug d3 = slug d2
          \<and> agenda d3 = agenda d2 \<and> tags d3 = tags d2 \<and> date d3 = date d2 \<and> time d3 = time d2"
    using sanitizeField_Inr [OF s3] by (intro k) blast
  have e4: "title d4 = title d3 \<and> titleModified d4 = titleModified d3 \<and> slug d4 = slug d3
          \<and> agenda d4 = agenda d3 \<and> tags d4 = tags d3 \<and> date d4 = date d3 \<and> time d4 = time d3"
    using sanitizeField_Inr [OF s4] by (intro k) blast
  have e5: "title d5 = title d4 \<and> titleModified d5 = titleModified d4 \<and> slug d5 = slug d4
          \<and> agenda d5 = agenda d4 \<and> tags d5 = tags d4 \<and> date d5 = date d4 \<and> time d5 = time d4"
    using sanitizeField_Inr [OF s5] by (intro k) blast
  have e6: "title d6 = title d5 \<and> titleModified d6 = titleModified d5 \<and> slug d6 = slug d5
          \<and> agenda d6 = agenda d5 \<and> tags d6 = tags d5 \<and> date d6 = date d5 \<and> time d6 = time d5"
    using sanitizeField_Inr [OF s6] by (intro k) blast
  have e7: "title d7 = title d6 \<and> titleModified d7 = titleModified d6 \<and> slug d7 = slug d6
          \<and> agenda d7 = agenda d6 \<and> tags d7 = tags d6 \<and> date d7 = date d6 \<and> time d7 = time d6"
    using sanitizeField_Inr [OF s7] by (intro k) blast
  have e8: "title d8 = title d7 \<and> titleModified d8 = titleModified d7 \<and> slug d8 = slug d7
          \<and> agenda d8 = agenda d7 \<and> tags d8 = tags d7 \<and> date d8 = date d7 \<and> time d8 = time d7"
    using sanitizeField_Inr [OF s8] by (intro k) blast
  have e9: "title d' = title d8 \<and> titleModified d' = titleModified d8 \<and> slug d' = slug d8
          \<and> agenda d' = agenda d8 \<and> tags d' = tags d8 \<and> date d' = date d8 \<and> time d' = time d8"
    using sanitizeField_Inr [OF s9] by (intro k) blast
  have e1: "title d1 = Some (trim t) \<and> titleModified d1 = (titleModified d \<or> t \<noteq> trim t)
      \<and> slug d1 = slug d \<and> agenda d1 = agenda d \<and> tags d1 = tags d \<and> date d1 = date d \<and> time d1 = time d"
    using t by (auto simp: assignTitle_def)
  show ?thesis
    using t(1,2) e1 e2 e3 e4 e5 e6 e7 e8 e9 by simp
qed

lemma checkLists_Inr: "checkLists d = Inr d' \<Longrightarrow> d' = d"
  by (simp add: checkLists_def split: if_splits)

lemma normalizeDateTime_Inr:
  "normalizeDateTime p d = Inr d' \<Longrightarrow> slug d' = slug d \<and> title d' = title d"
  by (auto simp: normalizeDateTime_def dest!: thenDo_Inr)

lemma preSaveEvent_Inr:
  assumes "preSaveEvent p d = Inr d'"
  shows "\<exists>t. title d = Some t \<and> trim t \<noteq> [] \<and> title d' = Some (trim t)
           \<and> slug d' = slugAfterSave d t"
proof -
  from assms obtain d1 d2 where
    a: "sanitizeStrings d = Inr d1" and b: "checkLists d1 = Inr d2"
    and c: "normalizeDateTime p (slugGate d2) = Inr d'"
    unfolding preSaveEvent_def by (blast dest!: thenDo_Inr)
  from sanitizeStrings_Inr [OF a] obtain t where
    t: "title d = Some t" "trim t \<noteq> []" "title d1 = Some (trim t)"
    "titleModified d1 = (titleModified d \<or> t \<noteq> trim t)" "slug d1 = slug d" by blast
  from checkLists_Inr [OF b] have d2: "d2 = d1" .
  have g: "slug (slugGate d1) = slugAfterSave d t" "title (slugGate d1) = Some (trim t)"
    using t by (auto simp: slugGate_def slugAfterSave_def)
  from normalizeDateTime_Inr [OF c] g d2 t(1,2) show ?thesis by simp
qed

lemma normalizeDateTime_succeeds:
  "(\<exists>r. normalizeDateTime p d = Inr r) =
     ((\<exists>x. normalizeDate p (DateString (date d)) = Inr x) \<and> (\<exists>y. normalizeTime (time d) = Inr y))"
  by (cases "normalizeDate p (DateString (date d))"; cases "normalizeTime (time d)")
    (simp_all add: normalizeDateTime_def thenDo_def)

lemma slugGate_frame: "date (slugGate d) = date d \<and> time (slugGate d) = time d"
  by (simp add: slugGate_def)

lemma preSaveEvent_succeeds:
  "(\<exists>d'. preSaveEvent p d = Inr d') =
     ((\<exists>d1. sanitizeStrings d = Inr d1) \<and> \<not> emptyOrNoArray (agenda d) \<and> \<not> emptyOrNoArray (tags d)
        \<and> (\<exists>x. normalizeDate p (DateString (date d)) = Inr x)
        \<and> (\<exists>y. normalizeTime (time d) = Inr y))"
proof (cases "sanitizeStrings d")
  case (Inl e)
  then show ?thesis by (simp add: preSaveEvent_def thenDo_def)
next
  case (Inr d1)
  from sanitizeStrings_Inr [OF Inr] have f: "agenda d1 = agenda d" "tags d1 = tags d"
    "date d1 = date d" "time d1 = time d" by auto
  show ?thesis
  proof (cases "emptyOrNoArray (agenda d) \<or> emptyOrNoArray (tags d)")
    case True
    with Inr f show ?thesis by (auto simp: preSaveEvent_def thenDo_def checkLists_def)
  next
    case False
    with f have c: "checkLists d1 = Inr d1" by (simp add: checkLists_def)
    have "(\<exists>d'. preSaveEvent p d = Inr d') = (\<exists>r. normalizeDateTime p (slugGate d1) = Inr r)"
      by (simp add: preSaveEvent_def thenDo_def Inr c)
    then show ?thesis
      using False Inr f by (simp add: normalizeDateTime_succeeds slugGate_frame)
  qed
qed

lemma set_toLowerCase: "set (toLowerCase s) = (\<Union>c \<in> set s. set (lowerUnit c))"
  by (induction s) auto

lemma hr_no_alnum:
  "\<forall>c \<in> set x. \<not> isSlugAlnum c \<Longrightarrow>
     hyphenateRuns True x = [] \<and> hyphenateRuns False x = (if x = [] then [] else [45])"
  by (induction x) auto

lemma slugify_no_alnum:
  assumes "\<forall>c \<in> set (toLowerCase t). \<not> isSlugAlnum c"
  shows "slugify t = []"
proof -
  define x where "x = removeQuotes (trim (toLowerCase t))"
  have "set x \<subseteq> set (toLowerCase t)"
    unfolding x_def removeQuotes_def using set_trim [of "toLowerCase t"] by auto
  with assms have "\<forall>c \<in> set x. \<not> isSlugAlnum c" by blast
  from hr_no_alnum [OF this] have "hyphenateRuns False x = [] \<or> hyphenateRuns False x = [45]"
    by (simp split: if_splits)
  then have "stripEdgeHyphens (hyphenateRuns False x) = []"
    by (auto simp: stripEdgeHyphens_def dropLeadingHyphen_def dropTrailingHyphen_def)
  then show ?thesis by (simp add: slugify_def x_def)
qed

lemma lower_trim_subset: "set (toLowerCase (trim t)) \<subseteq> set (toLowerCase t)"
  using set_trim [of t] by (auto simp: set_toLowerCase)

text \<open>
  C6. Take a document whose title is the title of the last persisted version (a version
  written through the hook), not flagged as modified, and whose slug is present. A save
  leaves its slug as it is. In general a save changes the slug only when the title was
  flagged as modified, or is changed by this save, or no slug was present, and the new
  slug is then \<open>slugify\<close> of the title that is saved.
\<close>

theorem slug_kept_when_title_unmodified:
  assumes "preSaveEvent p0 d0 = Inr persisted"
    and "title d = title persisted" and "\<not> titleModified d" and "\<not> slugMissing (slug d)"
    and "preSaveEvent p d = Inr d'"
  shows "slug d' = slug d \<and>
    (\<forall>e e'. preSaveEvent p e = Inr e' \<longrightarrow> slug e' \<noteq> slug e \<longrightarrow>
       (titleModified e \<or> title e' \<noteq> title e \<or> slugMissing (slug e))
       \<and> slug e' = map_option slugify (title e'))"
proof
  from preSaveEvent_Inr [OF assms(1)] obtain t0 where "title persisted = Some (trim t0)" by blast
  with assms(2) have td: "title d = Some (trim t0)" by simp
  from preSaveEvent_Inr [OF assms(5)] obtain t where
    t: "title d = Some t" "slug d' = slugAfterSave d t" by blast
  with td have "t = trim t0" by simp
  then have "trim t = t" by (simp add: trim_idem)
  with t(2) assms(3,4) show "slug d' = slug d" by (simp add: slugAfterSave_def)
next
  show "\<forall>e e'. preSaveEvent p e = Inr e' \<longrightarrow> slug e' \<noteq> slug e \<longrightarrow>
       (titleModified e \<or> title e' \<noteq> title e \<or> slugMissing (slug e))
       \<and> slug e' = map_option slugify (title e')"
  proof (intro allI impI)
    fix e e'
    assume a: "preSaveEvent p e = Inr e'" and n: "slug e' \<noteq> slug e"
    from preSaveEvent_Inr [OF a] obtain t where
      t: "title e = Some t" "title e' = Some (trim t)" "slug e' = slugAfterSave e t" by blast
    with n have "titleModified e \<or> t \<noteq> trim t \<or> slugMissing (slug e)"
      by (auto simp: slugAfterSave_def split: if_splits)
    with t show "(titleModified e \<or> title e' \<noteq> title e \<or> slugMissing (slug e))
       \<and> slug e' = map_option slugify (title e')"
      by (auto simp: slugAfterSave_def)
  qed
qed

text \<open>
  C10 (as amended). For every title whose lower-case form has no character of \<open>[a-z0-9]\<close>,
  \<open>slugify\<close> returns the empty string; a save of a document with this title whose slug is
  derived (title modified or slug missing) stores the empty slug; whether the hook
  succeeds is decided by the nine string fields, the two lists, the date and the time
  alone, so the empty slug raises no error; and a document whose slug is empty has its
  slug derived again by every save.
\<close>

theorem empty_slug_without_lower_alnum:
  assumes "\<forall>c \<in> set (toLowerCase t). \<not> isSlugAlnum c"
  shows "slugify t = []
    \<and> (\<forall>p d d'. title d = Some t \<and> (titleModified d \<or> slugMissing (slug d)) \<and> preSaveEvent p d = Inr d'
          \<longrightarrow> slug d' = Some [])
    \<and> (\<forall>p d. (\<exists>d'. preSaveEvent p d = Inr d') =
          ((\<exists>d1. sanitizeStrings d = Inr d1) \<and> \<not> emptyOrNoArray (agenda d) \<and> \<not> emptyOrNoArray (tags d)
           \<and> (\<exists>x. normalizeDate p (DateString (date d)) = Inr x)
           \<and> (\<exists>y. normalizeTime (time d) = Inr y)))
    \<and> (\<forall>p e e'. slug e = Some [] \<and> preSaveEvent p e = Inr e'
          \<longrightarrow> slug e' = map_option slugify (title e'))"
proof (intro conjI allI impI)
  show "slugify t = []" using assms by (rule slugify_no_alnum)
next
  fix p d d'
  assume a: "title d = Some t \<and> (titleModified d \<or> slugMissing (slug d)) \<and> preSaveEvent p d = Inr d'"
  then have s: "preSaveEvent p d = Inr d'" by simp
  from preSaveEvent_Inr [OF s] a have "slug d' = Some (slugify (trim t))"
    by (auto simp: slugAfterSave_def)
  moreover have "slugify (trim t) = []"
    using assms lower_trim_subset [of t] by (intro slugify_no_alnum) blast
  ultimately show "slug d' = Some []" by simp
next
  fix p d
  show "(\<exists>d'. preSaveEvent p d = Inr d') =
          ((\<exists>d1. sanitizeStrings d = Inr d1) \<and> \<not> emptyOrNoArray (agenda d) \<and> \<not> emptyOrNoArray (tags d)
           \<and> (\<exists>x. normalizeDate p (DateString (date d)) = Inr x)
           \<and> (\<exists>y. normalizeTime (time d) = Inr y))"
    by (rule preSaveEvent_succeeds)
next
  fix p e e'
  assume a: "slug e = Some [] \<and> preSaveEvent p e = Inr e'"
  then have s: "preSaveEvent p e = Inr e'" by simp
  from preSaveEvent_Inr [OF s] a show "slug e' = map_option slugify (title e')"
    by (auto simp: slugAfterSave_def slugMissing_def)
qed

text \<open>
  The claim as it was stated fails: U+212A KELVIN SIGN is no ASCII letter or digit, and
  its lower-case form is \<open>k\<close>.
\<close>

theorem kelvin_sign_slug_counterexample:
  "\<not> isAsciiAlnum 8490 \<and> slugify [8490] = js ''k''"
  by (simp add: isAsciiAlnum_def slug_eval)

lemma normalizeDate_2025:
  "normalizeDate isoDateOnlyParse (DateString (js ''2025-03-10'')) = Inr (js ''2025-03-10'')"
proof -
  have a: "daysFromCivil 2025 3 10 = 20157" unfolding daysFromCivil_def Let_def by simp
  have b: "isoDateOnlyParse (js ''2025-03-10'') = Some 1741564800000"
    by (simp add: isoDateOnlyParse_def js_def isDigit_def parseDec_def daysInMonth_def msPerDay_def a)
  have c: "utcDay 1741564800000 = 20157" by (simp add: utcDay_def msPerDay_def)
  have d: "civilFromDays 20157 = (2025, 3, 10)" unfolding civilFromDays_def Let_def by simp
  have "normalizeDate isoDateOnlyParse (DateObject (Some 1741564800000)) = Inr (js ''2025-03-10'')"
    by (simp add: normalizeDate_def getUTCFullYear_def getUTCMonth_def getUTCDate_def c d show_eval)
  then show ?thesis by (simp add: normalizeDate_def b)
qed

lemma normalizeTime_2pm: "normalizeTime (js ''2pm'') = Inr (js ''14:00'')"
  by (simp add: time_eval)

lemma normalizeTime_1400: "normalizeTime (js ''14:00'') = Inr (js ''14:00'')"
  by (simp add: time_eval)

lemma trim_js_simps:
  "trim (js ''Talks'') = js ''Talks''" "trim (js ''A day of talks'') = js ''A day of talks''"
  "trim (js ''/img.png'') = js ''/img.png''" "trim (js ''Hall 1'') = js ''Hall 1''"
  "trim (js ''Hanoi'') = js ''Hanoi''" "trim (js ''offline'') = js ''offline''"
  "trim (js ''devs'') = js ''devs''" "trim (js ''ACM'') = js ''ACM''"
  "trim (js '' Rock & Roll '') = js ''Rock & Roll''" "trim (js ''Rock & Roll'') = js ''Rock & Roll''"
  "trim (js '' !!! '') = js ''!!!''" "trim (js ''!!!'') = js ''!!!''"
  by (simp_all add: js_def trim_def isWhiteSpace_def)

lemma js_nonempty_simps:
  "js ''Talks'' \<noteq> []" "js ''A day of talks'' \<noteq> []" "js ''/img.png'' \<noteq> []" "js ''Hall 1'' \<noteq> []"
  "js ''Hanoi'' \<noteq> []" "js ''offline'' \<noteq> []" "js ''devs'' \<noteq> []" "js ''ACM'' \<noteq> []"
  "js ''Rock & Roll'' \<noteq> []" "js ''!!!'' \<noteq> []" "js ''rock-roll'' \<noteq> []"
  "js '' Rock & Roll '' \<noteq> js ''Rock & Roll''" "js '' !!! '' \<noteq> js ''!!!''"
  by (simp_all add: js_def)

lemmas presave_eval = preSaveEvent_def sanitizeStrings_def sanitizeField_def thenDo_def
  assertNonEmpty_def assignTitle_def checkLists_def emptyOrNoArray_def slugGate_def slugMissing_def
  normalizeDateTime_def sampleEvent_def trim_js_simps js_nonempty_simps normalizeDate_2025
  normalizeTime_2pm normalizeTime_1400

lemma slugify_rock: "slugify (js ''Rock & Roll'') = js ''rock-roll''"
  by (simp add: slug_eval)

lemma slugify_punct: "slugify (js ''!!!'') = []"
  by (simp add: slug_eval)

lemma preSave_rock:
  "preSaveEvent isoDateOnlyParse (sampleEvent (js '' Rock & Roll ''))
     = Inr ((sampleEvent (js ''Rock & Roll''))\<lparr>slug := Some (js ''rock-roll''), time := js ''14:00''\<rparr>)"
  by (simp add: presave_eval slugify_rock)

lemma preSave_rock_again:
  "preSaveEvent isoDateOnlyParse
     ((sampleEvent (js ''Rock & Roll''))\<lparr>slug := Some (js ''rock-roll''), time := js ''14:00'',
        venue := Some (js ''Hall 1''), titleModified := False\<rparr>)
     = Inr ((sampleEvent (js ''Rock & Roll''))\<lparr>slug := Some (js ''rock-roll''), time := js ''14:00'',
        venue := Some (js ''Hall 1''), titleModified := False\<rparr>)"
  by (simp add: presave_eval)

text \<open>
  A new event titled \<open>Rock & Roll\<close> is saved; the persisted version, with another field
  reassigned and the title untouched, is saved again.
\<close>

theorem slug_kept_when_title_unmodified_witness:
  "preSaveEvent isoDateOnlyParse (sampleEvent (js '' Rock & Roll ''))
     = Inr ((sampleEvent (js ''Rock & Roll''))\<lparr>slug := Some (js ''rock-roll''), time := js ''14:00''\<rparr>)
   \<and> slug ((sampleEvent (js ''Rock & Roll''))\<lparr>slug := Some (js ''rock-roll''), time := js ''14:00'',
        venue := Some (js ''Hall 1''), titleModified := False\<rparr>) = Some (js ''rock-roll'')
   \<and> preSaveEvent isoDateOnlyParse
     ((sampleEvent (js ''Rock & Roll''))\<lparr>slug := Some (js ''rock-roll''), time := js ''14:00'',
        venue := Some (js ''Hall 1''), titleModified := False\<rparr>)
     = Inr ((sampleEvent (js ''Rock & Roll''))\<lparr>slug := Some (js ''rock-roll''), time := js ''14:00'',
        venue := Some (js ''Hall 1''), titleModified := False\<rparr>)"
proof -
  have "slug ((sampleEvent (js ''Rock & Roll''))\<lparr>slug := Some (js ''rock-roll''), time := js ''14:00'',
        venue := Some (js ''Hall 1''), titleModified := False\<rparr>) =
     slug ((sampleEvent (js ''Rock & Roll''))\<lparr>slug := Some (js ''rock-roll''), time := js ''14:00'',
        venue := Some (js ''Hall 1''), titleModified := False\<rparr>)"
    using slug_kept_when_title_unmodified [OF preSave_rock _ _ _ preSave_rock_again]
    by (simp add: sampleEvent_def slugMissing_def js_nonempty_simps)
  then show ?thesis
    using preSave_rock preSave_rock_again by (simp add: sampleEvent_def)
qed

text \<open>The title \<open>!!!\<close>, saved twice.\<close>

theorem empty_slug_without_lower_alnum_witness:
  "list_all (\<lambda>c. \<not> isSlugAlnum c) (toLowerCase (js '' !!! ''))
   \<and> slugify (js '' !!! '') = []
   \<and> preSaveEvent isoDateOnlyParse (sampleEvent (js '' !!! ''))
        = Inr ((sampleEvent (js ''!!!''))\<lparr>slug := Some [], time := js ''14:00''\<rparr>)
   \<and> preSaveEvent isoDateOnlyParse
        ((sampleEvent (js ''!!!''))\<lparr>slug := Some [], time := js ''14:00'', titleModified := False\<rparr>)
        = Inr ((sampleEvent (js ''!!!''))\<lparr>slug := Some [], time := js ''14:00'', titleModified := False\<rparr>)"
proof -
  have h: "\<forall>c \<in> set (toLowerCase (js '' !!! '')). \<not> isSlugAlnum c"
    by (simp add: js_def lowerUnit_def isSlugAlnum_def)
  have s: "slugify (js '' !!! '') = []"
    using empty_slug_without_lower_alnum [OF h] by blast
  have 1: "preSaveEvent isoDateOnlyParse (sampleEvent (js '' !!! ''))
        = Inr ((sampleEvent (js ''!!!''))\<lparr>slug := Some [], time := js ''14:00''\<rparr>)"
    by (simp add: presave_eval slugify_punct)
  have 2: "preSaveEvent isoDateOnlyParse
        ((sampleEvent (js ''!!!''))\<lparr>slug := Some [], time := js ''14:00'', titleModified := False\<rparr>)
        = Inr ((sampleEvent (js ''!!!''))\<lparr>slug := Some [], time := js ''14:00'', titleModified := False\<rparr>)"
    by (simp add: presave_eval slugify_punct)
  from h s 1 2 show ?thesis by (simp add: list_all_iff)
qed

section \<open>Properties of the connection manager\<close>

lemma connectToDatabase_fails:
  assumes "connectToDatabase env c = (Inl e, c')"
  shows "conn c = None \<and> conn c' = None
     \<and> (\<exists>k. promise c' = Some k \<and> env k = Some e \<and> (promise c = None \<or> promise c = Some k))
     \<and> attempts c' = (if promise c = None then Suc (attempts c) else attempts c)"
  using assms
  by (auto simp: connectToDatabase_def connectBegin_def connectResume_def
      split: option.splits prod.splits connectStep.splits)

lemma connectToDatabase_stuck:
  assumes "conn c = None" "promise c = Some k" "env k = Some e"
  shows "connectToDatabase env c = (Inl e, c)"
  using assms by (simp add: connectToDatabase_def connectBegin_def connectResume_def)

text \<open>
  C2 (as amended). When a connection attempt fails, the error is thrown to the caller and
  to every other caller that awaits the same attempt, and the cached connection stays
  empty. The cached promise is not cleared: it stays the rejected promise of the failed
  attempt, so the state is not the uninitialized one, every later call of
  \<open>connectToDatabase\<close> fails with the same error without a new attempt being made, and
  \<open>disconnectFromDatabase\<close> leaves the state as it is.
\<close>

theorem failed_connect_keeps_promise:
  assumes "connectToDatabase env c = (Inl e, c')"
  shows "conn c' = None \<and> \<not> uninitialized c'
     \<and> (\<exists>k. promise c' = Some k \<and> env k = Some e \<and> connectResume env k c' = (Inl e, c'))
     \<and> connectToDatabase env c' = (Inl e, c')
     \<and> disconnectFromDatabase c' = c'"
proof -
  from connectToDatabase_fails [OF assms] obtain k where
    k: "conn c' = None" "promise c' = Some k" "env k = Some e" by blast
  have "connectResume env k c' = (Inl e, c')" using k(3) by (simp add: connectResume_def)
  moreover have "connectToDatabase env c' = (Inl e, c')" using k by (rule connectToDatabase_stuck)
  moreover have "disconnectFromDatabase c' = c'" using k(1) by (simp add: disconnectFromDatabase_def)
  ultimately show ?thesis using k by (simp add: uninitialized_def)
qed

lemma first_failure:
  "connectToDatabase firstAttemptFails initialCache
     = (Inl (StoreError ''server unreachable''), \<lparr>conn = None, promise = Some 0, attempts = Suc 0\<rparr>)"
  by (simp add: connectToDatabase_def connectBegin_def connectResume_def initialCache_def
      firstAttemptFails_def)

lemma second_failure:
  "connectToDatabase firstAttemptFails \<lparr>conn = None, promise = Some 0, attempts = Suc 0\<rparr>
     = (Inl (StoreError ''server unreachable''), \<lparr>conn = None, promise = Some 0, attempts = Suc 0\<rparr>)"
  by (simp add: connectToDatabase_def connectBegin_def connectResume_def firstAttemptFails_def)

theorem failed_connect_keeps_promise_witness:
  "connectToDatabase firstAttemptFails initialCache
     = (Inl (StoreError ''server unreachable''), \<lparr>conn = None, promise = Some 0, attempts = Suc 0\<rparr>)
   \<and> connectToDatabase firstAttemptFails \<lparr>conn = None, promise = Some 0, attempts = Suc 0\<rparr>
     = (Inl (StoreError ''server unreachable''), \<lparr>conn = None, promise = Some 0, attempts = Suc 0\<rparr>)"
  using failed_connect_keeps_promise [OF first_failure] first_failure by simp

text \<open>
  The claim as it was stated fails: after the first attempt has failed the state is not
  the uninitialized one, and the next call makes no second attempt, which would succeed.
\<close>

theorem failed_connect_counterexample:
  "fst (connectToDatabase firstAttemptFails initialCache) = Inl (StoreError ''server unreachable'')
   \<and> \<not> uninitialized (snd (connectToDatabase firstAttemptFails initialCache))
   \<and> firstAttemptFails 1 = None
   \<and> fst (connectToDatabase firstAttemptFails (snd (connectToDatabase firstAttemptFails initialCache)))
       = Inl (StoreError ''server unreachable'')
   \<and> attempts (snd (connectToDatabase firstAttemptFails
        (snd (connectToDatabase firstAttemptFails initialCache)))) = Suc 0"
  by (simp add: first_failure second_failure uninitialized_def firstAttemptFails_def)

section \<open>Properties of the route handler\<close>

lemma trim_Nil: "trim [] = []"
  by (simp add: trim_def)

lemma bad_slug_iff: "(sl = [] \<or> \<not> isValidSlug (Some sl)) = (\<not> slugParamOk (Some sl))"
  by (cases "trim sl") (auto simp: isValidSlug_def slugParamOk_def trim_Nil)

lemma GET_rejected: "params req = Inl e \<Longrightarrow> GET req s = (internalError, fst s)"
  by (simp add: GET_def)

lemma GET_missing: "params req = Inr None \<Longrightarrow> GET req s = (badRequest, fst s)"
  by (simp add: GET_def)

lemma GET_bad: "params req = Inr (Some x) \<Longrightarrow> \<not> slugParamOk (Some x) \<Longrightarrow> GET req s = (badRequest, fst s)"
  using bad_slug_iff [of x] by (simp add: GET_def)

lemma GET_good:
  assumes "params req = Inr (Some x)" "slugParamOk (Some x)"
  shows "GET req s =
    (case connectToDatabase (connectEnv req) (fst s) of
               (Inl e, c1) \<Rightarrow> (internalError, c1)
             | (Inr h, c1) \<Rightarrow>
                 (case queryError req of
                    Some e \<Rightarrow> (internalError, c1)
                  | None \<Rightarrow>
                      (case findOneBySlug (snd s) x of
                         None \<Rightarrow> (notFound, c1)
                       | Some ev \<Rightarrow> (\<lparr>status = 200, body = EventResponse ev\<rparr>, c1))))"
  using bad_slug_iff [of x] assms by (simp add: GET_def)

lemma GET_connect_fails:
  assumes "params req = Inr (Some x)" "slugParamOk (Some x)"
    and "connectToDatabase (connectEnv req) (fst s) = (Inl e, c1)"
  shows "GET req s = (internalError, c1)"
  using GET_good [OF assms(1,2), of s] assms(3) by simp

lemma GET_query_fails:
  assumes "params req = Inr (Some x)" "slugParamOk (Some x)"
    and "connectToDatabase (connectEnv req) (fst s) = (Inr h, c1)" "queryError req = Some e"
  shows "GET req s = (internalError, c1)"
  using GET_good [OF assms(1,2), of s] assms(3,4) by simp

lemma find_first:
  "\<forall>q \<in> set pre. \<not> P q \<Longrightarrow> P p \<Longrightarrow> find P (pre @ p # post) = Some p"
  by (induction pre) auto

lemma findOneBySlug_none:
  assumes "\<forall>p \<in> set (events db). slug (snd p) \<noteq> Some x"
  shows "findOneBySlug db x = None"
proof -
  have "find (\<lambda>(i, d). slug d = Some x) (events db) = None"
    using assms by (auto simp: find_None_iff)
  then show ?thesis by (simp add: findOneBySlug_def)
qed

lemma findOneBySlug_first:
  assumes "\<exists>p \<in> set (events db). slug (snd p) = Some x"
  shows "\<exists>pre i ev post. events db = pre @ (i, ev) # post \<and> slug ev = Some x
           \<and> (\<forall>p \<in> set pre. slug (snd p) \<noteq> Some x) \<and> findOneBySlug db x = Some ev"
proof -
  from split_list_first_prop [OF assms] obtain pre p post where
    e: "events db = pre @ p # post" and p: "slug (snd p) = Some x"
    and n: "\<forall>q \<in> set pre. slug (snd q) \<noteq> Some x" by blast
  obtain i ev where ie: "p = (i, ev)" by (cases p)
  have "find (\<lambda>(j, d). slug d = Some x) (pre @ (i, ev) # post) = Some (i, ev)"
    using n p ie by (intro find_first) auto
  then have "findOneBySlug db x = Some ev"
    by (simp add: findOneBySlug_def e ie)
  with e p n ie show ?thesis by auto
qed

lemma GET_not_found:
  assumes "params req = Inr (Some x)" "slugParamOk (Some x)"
    and "connectToDatabase (connectEnv req) (fst s) = (Inr h, c1)" "queryError req = None"
    and "\<forall>p \<in> set (events (snd s)). slug (snd p) \<noteq> Some x"
  shows "GET req s = (notFound, c1)"
  using GET_good [OF assms(1,2), of s] assms(3,4) findOneBySlug_none [OF assms(5)] by simp

lemma GET_found:
  assumes "params req = Inr (Some x)" "slugParamOk (Some x)"
    and "connectToDatabase (connectEnv req) (fst s) = (Inr h, c1)" "queryError req = None"
    and "\<exists>p \<in> set (events (snd s)). slug (snd p) = Some x"
  shows "\<exists>pre i ev post. events (snd s) = pre @ (i, ev) # post \<and> slug ev = Some x
           \<and> (\<forall>p \<in> set pre. slug (snd p) \<noteq> Some x)
           \<and> GET req s = (\<lparr>status = 200, body = EventResponse ev\<rparr>, c1)"
proof -
  from findOneBySlug_first [OF assms(5)] obtain pre i ev post where
    f: "events (snd s) = pre @ (i, ev) # post" "slug ev = Some x"
    "\<forall>p \<in> set pre. slug (snd p) \<noteq> Some x" "findOneBySlug (snd s) x = Some ev" by blast
  have "GET req s = (\<lparr>status = 200, body = EventResponse ev\<rparr>, c1)"
    using GET_good [OF assms(1,2), of s] assms(3,4) f(4) by simp
  with f show ?thesis by blast
qed

lemma GET_bad_request:
  assumes "params req = Inr sl" "\<not> slugParamOk sl"
  shows "GET req s = (badRequest, fst s)"
proof (cases sl)
  case None
  with assms show ?thesis by (simp add: GET_missing)
next
  case (Some x)
  with assms show ?thesis by (simp add: GET_bad)
qed

text \<open>
  C9. The handler answers 400 with the code \<open>BAD_REQUEST\<close> exactly when \<open>params\<close> resolves
  and the slug is missing or its trimmed length is not between 1 and 200. When the slug
  is valid and the connection and the query succeed, it answers 404 with the code
  \<open>NOT_FOUND\<close> if no event of the store has the slug, and 200 with an event of the store
  that has the slug as data (the first one in the collection) if one has it. It answers
  500 with the code \<open>INTERNAL_ERROR\<close> on every other run: \<open>params\<close> is rejected, or the slug
  is valid and the connection or the query fails. There is no other status.
\<close>

theorem GET_responses:
  "(fst (GET req s) =
      \<lparr>status = 400, body = ErrorResponse ''A valid slug path parameter is required.'' ''BAD_REQUEST''\<rparr>)
      = (\<exists>sl. params req = Inr sl \<and> \<not> slugParamOk sl)
   \<and> (status (fst (GET req s)) = 400) = (\<exists>sl. params req = Inr sl \<and> \<not> slugParamOk sl)
   \<and> (\<forall>x c1 h. params req = Inr (Some x) \<and> slugParamOk (Some x)
         \<and> connectToDatabase (connectEnv req) (fst s) = (Inr h, c1) \<and> queryError req = None \<longrightarrow>
         ((\<forall>p \<in> set (events (snd s)). slug (snd p) \<noteq> Some x) \<longrightarrow>
            fst (GET req s) = \<lparr>status = 404, body = ErrorResponse ''Event not found.'' ''NOT_FOUND''\<rparr>)
         \<and> ((\<exists>p \<in> set (events (snd s)). slug (snd p) = Some x) \<longrightarrow>
              (\<exists>pre i ev post. events (snd s) = pre @ (i, ev) # post \<and> slug ev = Some x
                 \<and> (\<forall>p \<in> set pre. slug (snd p) \<noteq> Some x)
                 \<and> fst (GET req s) = \<lparr>status = 200, body = EventResponse ev\<rparr>)))
   \<and> ((\<exists>e. params req = Inl e)
        \<or> (\<exists>sl. params req = Inr sl \<and> slugParamOk sl
              \<and> ((\<exists>e c1. connectToDatabase (connectEnv req) (fst s) = (Inl e, c1))
                   \<or> (\<exists>e. queryError req = Some e)))
        \<longrightarrow> fst (GET req s) =
              \<lparr>status = 500, body = ErrorResponse ''Unexpected server error.'' ''INTERNAL_ERROR''\<rparr>)
   \<and> (status (fst (GET req s)) = 400 \<or> status (fst (GET req s)) = 404
        \<or> status (fst (GET req s)) = 500 \<or> status (fst (GET req s)) = 200)"
proof (cases "params req")
  case (Inl e)
  from GET_rejected [OF this, of s] have "fst (GET req s) = internalError" by simp
  with Inl show ?thesis by (auto simp: internalError_def)
next
  case (Inr sl)
  show ?thesis
  proof (cases "slugParamOk sl")
    case False
    from GET_bad_request [OF Inr False, of s] have "fst (GET req s) = badRequest" by simp
    with Inr False show ?thesis by (auto simp: badRequest_def)
  next
    case True
    then obtain x where x: "sl = Some x" by (cases sl) (auto simp: slugParamOk_def)
    with Inr True have px: "params req = Inr (Some x)" and ok: "slugParamOk (Some x)" by simp_all
    obtain r c1 where c: "connectToDatabase (connectEnv req) (fst s) = (r, c1)"
      by (cases "connectToDatabase (connectEnv req) (fst s)")
    show ?thesis
    proof (cases r)
      case ce: (Inl e)
      with c have "connectToDatabase (connectEnv req) (fst s) = (Inl e, c1)" by simp
      from GET_connect_fails [OF px ok this] have "fst (GET req s) = internalError" by simp
      with px ok c ce show ?thesis by (auto simp: internalError_def)
    next
      case ch: (Inr h)
      with c have ch': "connectToDatabase (connectEnv req) (fst s) = (Inr h, c1)" by simp
      show ?thesis
      proof (cases "queryError req")
        case (Some e)
        from GET_query_fails [OF px ok ch' Some] have "fst (GET req s) = internalError" by simp
        with px ok ch' Some show ?thesis by (auto simp: internalError_def)
      next
        case None
        show ?thesis
        proof (cases "\<exists>p \<in> set (events (snd s)). slug (snd p) = Some x")
          case False
          then have n: "\<forall>p \<in> set (events (snd s)). slug (snd p) \<noteq> Some x" by blast
          from GET_not_found [OF px ok ch' None n] have "fst (GET req s) = notFound" by simp
          with px ok ch' None False show ?thesis by (auto simp: notFound_def)
        next
          case True
          from GET_found [OF px ok ch' None True] obtain pre i ev post where
            f: "events (snd s) = pre @ (i, ev) # post" "slug ev = Some x"
            "\<forall>p \<in> set pre. slug (snd p) \<noteq> Some x"
            "fst (GET req s) = \<lparr>status = 200, body = EventResponse ev\<rparr>" by force
          have 3: "\<exists>pre i ev post. events (snd s) = pre @ (i, ev) # post \<and> slug ev = Some x
                 \<and> (\<forall>p \<in> set pre. slug (snd p) \<noteq> Some x)
                 \<and> fst (GET req s) = \<lparr>status = 200, body = EventResponse ev\<rparr>"
            using f by blast
          have 0: "\<not> (\<forall>p \<in> set (events (snd s)). slug (snd p) \<noteq> Some x)" using True by blast
          have 4: "status (fst (GET req s)) = 200"
            "fst (GET req s) \<noteq>
               \<lparr>status = 400, body = ErrorResponse ''A valid slug path parameter is required.'' ''BAD_REQUEST''\<rparr>"
            by (simp_all add: f(4))
          show ?thesis
            using px ok ch' None 3 0 4 by auto
        qed
      qed
    qed
  qed
qed

lemma connect_ok:
  "connectToDatabase (\<lambda>k. None) initialCache
     = (Inr (Handle 0), \<lparr>conn = Some (Handle 0), promise = Some 0, attempts = Suc 0\<rparr>)"
  by (simp add: connectToDatabase_def connectBegin_def connectResume_def initialCache_def)

lemma slugParamOk_rock: "slugParamOk (Some (js ''rock-roll''))"
  by (simp add: slugParamOk_def js_def trim_def isWhiteSpace_def)

lemma slugParamOk_blank: "\<not> slugParamOk (Some (js ''  ''))"
  by (simp add: slugParamOk_def js_def trim_def isWhiteSpace_def)

lemma slugParamOk_nope: "slugParamOk (Some (js ''no-such-event''))"
  by (simp add: slugParamOk_def js_def trim_def isWhiteSpace_def)

lemma persistedRock_slug: "slug persistedRock = Some (js ''rock-roll'')"
  by (simp add: persistedRock_def)

lemma js_slugs_differ: "js ''rock-roll'' \<noteq> js ''no-such-event''"
  by (simp add: js_def)

theorem GET_responses_witness:
  "fst (GET (requestFor (Some (js ''rock-roll'')) (\<lambda>k. None)) (initialCache, sampleDb))
     = \<lparr>status = 200, body = EventResponse persistedRock\<rparr>
   \<and> fst (GET (requestFor (Some (js ''no-such-event'')) (\<lambda>k. None)) (initialCache, sampleDb))
     = \<lparr>status = 404, body = ErrorResponse ''Event not found.'' ''NOT_FOUND''\<rparr>
   \<and> fst (GET (requestFor (Some (js ''  '')) (\<lambda>k. None)) (initialCache, sampleDb))
     = \<lparr>status = 400, body = ErrorResponse ''A valid slug path parameter is required.'' ''BAD_REQUEST''\<rparr>
   \<and> fst (GET (requestFor (Some (js ''rock-roll'')) firstAttemptFails) (initialCache, sampleDb))
     = \<lparr>status = 500, body = ErrorResponse ''Unexpected server error.'' ''INTERNAL_ERROR''\<rparr>"
proof -
  have ev: "events sampleDb = [(js ''65f000000000000000000001'', persistedRock)]"
    by (simp add: sampleDb_def)
  have 1: "fst (GET (requestFor (Some (js ''rock-roll'')) (\<lambda>k. None)) (initialCache, sampleDb))
     = \<lparr>status = 200, body = EventResponse persistedRock\<rparr>"
  proof -
    have "\<exists>pre i ev post. events sampleDb = pre @ (i, ev) # post
        \<and> slug ev = Some (js ''rock-roll'')
        \<and> (\<forall>p \<in> set pre. slug (snd p) \<noteq> Some (js ''rock-roll''))
        \<and> fst (GET (requestFor (Some (js ''rock-roll'')) (\<lambda>k. None)) (initialCache, sampleDb))
            = \<lparr>status = 200, body = EventResponse ev\<rparr>"
      using GET_responses [of "requestFor (Some (js ''rock-roll'')) (\<lambda>k. None)" "(initialCache, sampleDb)"]
        connect_ok slugParamOk_rock persistedRock_slug ev
      by (auto simp: requestFor_def)
    then obtain pre i ev' post where
      d: "events sampleDb = pre @ (i, ev') # post"
      and r: "fst (GET (requestFor (Some (js ''rock-roll'')) (\<lambda>k. None)) (initialCache, sampleDb))
            = \<lparr>status = 200, body = EventResponse ev'\<rparr>" by blast
    from d ev have "ev' = persistedRock"
      by (cases pre) auto
    with r show ?thesis by simp
  qed
  have 2: "fst (GET (requestFor (Some (js ''no-such-event'')) (\<lambda>k. None)) (initialCache, sampleDb))
     = \<lparr>status = 404, body = ErrorResponse ''Event not found.'' ''NOT_FOUND''\<rparr>"
    using GET_responses [of "requestFor (Some (js ''no-such-event'')) (\<lambda>k. None)" "(initialCache, sampleDb)"]
      connect_ok slugParamOk_nope persistedRock_slug js_slugs_differ ev
    by (auto simp: requestFor_def)
  have 3: "fst (GET (requestFor (Some (js ''  '')) (\<lambda>k. None)) (initialCache, sampleDb))
     = \<lparr>status = 400, body = ErrorResponse ''A valid slug path parameter is required.'' ''BAD_REQUEST''\<rparr>"
    using GET_responses [of "requestFor (Some (js ''  '')) (\<lambda>k. None)" "(initialCache, sampleDb)"]
      slugParamOk_blank
    by (auto simp: requestFor_def)
  have 4: "fst (GET (requestFor (Some (js ''rock-roll'')) firstAttemptFails) (initialCache, sampleDb))
     = \<lparr>status = 500, body = ErrorResponse ''Unexpected server error.'' ''INTERNAL_ERROR''\<rparr>"
    using GET_responses [of "requestFor (Some (js ''rock-roll'')) firstAttemptFails" "(initialCache, sampleDb)"]
      first_failure slugParamOk_rock
    by (auto simp: requestFor_def)
  from 1 2 3 4 show ?thesis by simp
qed
section \<open>Properties of createBooking\<close>


lemma validateBooking_Inr:
  "validateBooking cast input = Inr doc \<Longrightarrow>
     cast (inputEventId input) = Some (eventId doc) \<and> validateEmail (inputEmail input) = Inr (email doc)"
  by (auto simp: validateBooking_def split: option.splits sum.splits)

lemma validateBooking_Inl: "validateBooking cast input = Inl e \<Longrightarrow> \<exists>ms. e = ValidationError ms"
  by (auto simp: validateBooking_def split: option.splits sum.splits)

lemma bookingCreate_missing_event:
  assumes "\<forall>oid. cast (inputEventId input) = Some oid \<longrightarrow> \<not> eventExists db oid"
  shows "\<exists>e. bookingCreate existsError cast db input = Inl e
    \<and> (case validateBooking cast input of
             Inl ve \<Rightarrow> e = ve \<and> (\<exists>ms. ve = ValidationError ms)
           | Inr doc \<Rightarrow>
               (case existsError of
                  Some qe \<Rightarrow> e = qe
                | None \<Rightarrow> e = Error ''Referenced event does not exist''))"
proof (cases "validateBooking cast input")
  case (Inl e)
  then have "bookingCreate existsError cast db input = Inl e" by (simp add: bookingCreate_def thenDo_def)
  with Inl validateBooking_Inl [OF Inl] show ?thesis by simp
next
  case (Inr doc)
  from validateBooking_Inr [OF Inr] assms have "\<not> eventExists db (eventId doc)" by simp
  with Inr show ?thesis
    by (simp add: bookingCreate_def thenDo_def preSaveBooking_def split: option.splits)
qed

text \<open>
  C1 (as amended). When the referenced event does not exist in the Event store, the
  creation fails and the Booking collection after the call is the one before it (and so
  is its count). The error is the error of the connection when the connection fails; the
  validation error when the connection is established and the booking does not pass the
  validation of the schema; the error of the existence query when the booking is valid
  and the query is rejected; and \<open>Referenced event does not exist\<close> when the booking is
  valid and the query answers.
\<close>

theorem createBooking_missing_event:
  assumes "eventMissing cast (snd s) (inputEventId input)"
  shows "\<exists>e c1. createBooking env existsError cast input s = (Inl e, c1, snd s)
     \<and> length (bookings (snd (snd (createBooking env existsError cast input s)))) = length (bookings (snd s))
     \<and> (\<forall>ce c2. connectToDatabase env (fst s) = (Inl ce, c2) \<longrightarrow> e = ce)
     \<and> ((\<exists>h c2. connectToDatabase env (fst s) = (Inr h, c2)) \<longrightarrow>
          (case validateBooking cast input of
             Inl ve \<Rightarrow> e = ve \<and> (\<exists>ms. ve = ValidationError ms)
           | Inr doc \<Rightarrow>
               (case existsError of
                  Some qe \<Rightarrow> e = qe
                | None \<Rightarrow> e = Error ''Referenced event does not exist'')))"
proof -
  from assms have m: "\<forall>oid. cast (inputEventId input) = Some oid \<longrightarrow> \<not> eventExists (snd s) oid"
    by (auto simp: eventMissing_def)
  have "\<exists>e. bookingCreate existsError cast (snd s) input = Inl e
    \<and> (case validateBooking cast input of
             Inl ve \<Rightarrow> e = ve \<and> (\<exists>ms. ve = ValidationError ms)
           | Inr doc \<Rightarrow>
               (case existsError of
                  Some qe \<Rightarrow> e = qe
                | None \<Rightarrow> e = Error ''Referenced event does not exist''))"
    using m by (rule bookingCreate_missing_event)
  then obtain e where
    e: "bookingCreate existsError cast (snd s) input = Inl e"
    "case validateBooking cast input of
             Inl ve \<Rightarrow> e = ve \<and> (\<exists>ms. ve = ValidationError ms)
           | Inr doc \<Rightarrow>
               (case existsError of
                  Some qe \<Rightarrow> e = qe
                | None \<Rightarrow> e = Error ''Referenced event does not exist'')"
    by blast
  obtain r c1 where c: "connectToDatabase env (fst s) = (r, c1)" by (cases "connectToDatabase env (fst s)")
  show ?thesis
  proof (cases r)
    case (Inl ce)
    with c have "createBooking env existsError cast input s = (Inl ce, c1, snd s)"
      by (simp add: createBooking_def)
    with c Inl show ?thesis by auto
  next
    case (Inr h)
    with c e(1) have "createBooking env existsError cast input s = (Inl e, c1, snd s)"
      by (simp add: createBooking_def)
    with c Inr e(2) show ?thesis by auto
  qed
qed


lemma connect_always:
  "connectToDatabase alwaysConnects initialCache
     = (Inr (Handle 0), \<lparr>conn = Some (Handle 0), promise = Some 0, attempts = Suc 0\<rparr>)"
  by (simp add: connectToDatabase_def connectBegin_def connectResume_def initialCache_def
      alwaysConnects_def)

lemmas email_eval = validateEmail_def setEmail_def emailRegexTest_def isEmailChar_def afterDot_def
  js_def trim_def isWhiteSpace_def lowerUnit_def

lemma validateEmail_ada: "validateEmail (js '' Ada@Example.org '') = Inr (js ''ada@example.org'')"
  by (simp add: email_eval)

lemma validateEmail_bad: "validateEmail (js ''not-an-email'') = Inl ''email is invalid''"
  by (simp add: email_eval)

lemma missing_id: "eventMissing Some sampleDb (js ''65f000000000000000000002'')"
  by (simp add: eventMissing_def eventExists_def sampleDb_def js_def)


lemma validateBooking_ada_missing:
  "validateBooking Some (bookingFor ''65f000000000000000000002'' '' Ada@Example.org '')
     = Inr \<lparr>eventId = js ''65f000000000000000000002'', email = js ''ada@example.org''\<rparr>"
  by (simp add: validateBooking_def bookingFor_def validateEmail_ada)


theorem createBooking_missing_event_witness:
  "eventMissing Some sampleDb (js ''65f000000000000000000002'')
   \<and> fst (createBooking alwaysConnects None Some
        (bookingFor ''65f000000000000000000002'' '' Ada@Example.org '') (initialCache, sampleDb))
       = Inl (Error ''Referenced event does not exist'')
   \<and> snd (snd (createBooking alwaysConnects None Some
        (bookingFor ''65f000000000000000000002'' '' Ada@Example.org '') (initialCache, sampleDb)))
       = sampleDb
   \<and> fst (createBooking alwaysConnects (Some (StoreError ''query timed out'')) Some
        (bookingFor ''65f000000000000000000002'' '' Ada@Example.org '') (initialCache, sampleDb))
       = Inl (StoreError ''query timed out'')"
proof -
  have m: "eventMissing Some (snd (initialCache, sampleDb))
      (inputEventId (bookingFor ''65f000000000000000000002'' '' Ada@Example.org ''))"
    using missing_id by (simp add: bookingFor_def)
  have a: "fst (createBooking alwaysConnects None Some
        (bookingFor ''65f000000000000000000002'' '' Ada@Example.org '') (initialCache, sampleDb))
       = Inl (Error ''Referenced event does not exist'')
     \<and> snd (snd (createBooking alwaysConnects None Some
        (bookingFor ''65f000000000000000000002'' '' Ada@Example.org '') (initialCache, sampleDb)))
       = sampleDb"
    using createBooking_missing_event [OF m, of alwaysConnects None]
      connect_always validateBooking_ada_missing by auto
  have b: "fst (createBooking alwaysConnects (Some (StoreError ''query timed out'')) Some
        (bookingFor ''65f000000000000000000002'' '' Ada@Example.org '') (initialCache, sampleDb))
       = Inl (StoreError ''query timed out'')"
    using createBooking_missing_event [OF m, of alwaysConnects "Some (StoreError ''query timed out'')"]
      connect_always validateBooking_ada_missing by auto
  from missing_id a b show ?thesis by simp
qed

text \<open>
  The claim as it was stated fails: the event does not exist, the email is no email, and
  the error is the validation error.
\<close>

theorem createBooking_missing_event_counterexample:
  "eventMissing Some sampleDb (js ''65f000000000000000000002'')
   \<and> fst (createBooking alwaysConnects None Some
        (bookingFor ''65f000000000000000000002'' ''not-an-email'') (initialCache, sampleDb))
       = Inl (ValidationError [''email is invalid''])"
  by (simp add: missing_id createBooking_def connect_always bookingCreate_def thenDo_def
      validateBooking_def bookingFor_def validateEmail_bad)



section \<open>Properties of the email validation\<close>

lemma domainFrom_iff:
  "domainFrom taken r =
     (\<exists>x y. r = x @ [46] @ y \<and> (taken \<or> x \<noteq> []) \<and> y \<noteq> [] \<and> list_all isEmailChar (x @ y))"
proof (induction r arbitrary: taken)
  case Nil
  then show ?case by simp
next
  case (Cons c cs)
  show ?case
  proof
    assume "domainFrom taken (c # cs)"
    then consider (more) "isEmailChar c" "domainFrom True cs" | (dot) "taken" "c = 46" "afterDot cs"
      by auto
    then show "\<exists>x y. c # cs = x @ [46] @ y \<and> (taken \<or> x \<noteq> []) \<and> y \<noteq> [] \<and> list_all isEmailChar (x @ y)"
    proof cases
      case more
      from more(2) Cons.IH [of True] obtain x y where
        "cs = x @ [46] @ y" "y \<noteq> []" "list_all isEmailChar (x @ y)" by auto
      with more(1) show ?thesis
        by (intro exI [of _ "c # x"] exI [of _ y]) simp
    next
      case dot
      then show ?thesis
        by (intro exI [of _ "[]"] exI [of _ cs]) (simp add: afterDot_def)
    qed
  next
    assume "\<exists>x y. c # cs = x @ [46] @ y \<and> (taken \<or> x \<noteq> []) \<and> y \<noteq> [] \<and> list_all isEmailChar (x @ y)"
    then obtain x y where e: "c # cs = x @ [46] @ y" and t: "taken \<or> x \<noteq> []" and y: "y \<noteq> []"
      and a: "list_all isEmailChar (x @ y)" by blast
    show "domainFrom taken (c # cs)"
    proof (cases x)
      case Nil
      with e t y a show ?thesis by (simp add: afterDot_def)
    next
      case (Cons c' x')
      with e have c: "c' = c" "cs = x' @ [46] @ y" by simp_all
      from a Cons have "isEmailChar c'" "list_all isEmailChar (x' @ y)" by simp_all
      with c y Cons.IH [of True] have "isEmailChar c" "domainFrom True cs" by auto
      then show ?thesis by simp
    qed
  qed
qed

lemma localFrom_iff:
  "localFrom taken v =
     (\<exists>l x y. v = l @ [64] @ x @ [46] @ y \<and> (taken \<or> l \<noteq> []) \<and> x \<noteq> [] \<and> y \<noteq> []
        \<and> list_all isEmailChar (l @ x @ y))"
proof (induction v arbitrary: taken)
  case Nil
  then show ?case by simp
next
  case (Cons c cs)
  show ?case
  proof
    assume "localFrom taken (c # cs)"
    then consider (more) "isEmailChar c" "localFrom True cs" | (at) "taken" "c = 64" "domainFrom False cs"
      by auto
    then show "\<exists>l x y. c # cs = l @ [64] @ x @ [46] @ y \<and> (taken \<or> l \<noteq> []) \<and> x \<noteq> [] \<and> y \<noteq> []
        \<and> list_all isEmailChar (l @ x @ y)"
    proof cases
      case more
      from more(2) Cons.IH [of True] obtain l x y where
        "cs = l @ [64] @ x @ [46] @ y" "x \<noteq> []" "y \<noteq> []" "list_all isEmailChar (l @ x @ y)" by auto
      with more(1) show ?thesis
        by (intro exI [of _ "c # l"] exI [of _ x] exI [of _ y]) simp
    next
      case at
      from at(3) domainFrom_iff [of False cs] obtain x y where
        "cs = x @ [46] @ y" "x \<noteq> []" "y \<noteq> []" "list_all isEmailChar (x @ y)" by auto
      with at(1,2) show ?thesis
        by (intro exI [of _ "[]"] exI [of _ x] exI [of _ y]) simp
    qed
  next
    assume "\<exists>l x y. c # cs = l @ [64] @ x @ [46] @ y \<and> (taken \<or> l \<noteq> []) \<and> x \<noteq> [] \<and> y \<noteq> []
        \<and> list_all isEmailChar (l @ x @ y)"
    then obtain l x y where e: "c # cs = l @ [64] @ x @ [46] @ y" and t: "taken \<or> l \<noteq> []"
      and n: "x \<noteq> []" "y \<noteq> []" and a: "list_all isEmailChar (l @ x @ y)" by blast
    show "localFrom taken (c # cs)"
    proof (cases l)
      case Nil
      with e have c: "c = 64" "cs = x @ [46] @ y" by simp_all
      from a Nil have "list_all isEmailChar (x @ y)" by simp
      with c n have "domainFrom False cs" using domainFrom_iff [of False cs] by blast
      with Nil t c show ?thesis by simp
    next
      case (Cons c' l')
      with e have c: "c' = c" "cs = l' @ [64] @ x @ [46] @ y" by simp_all
      from a Cons have "isEmailChar c'" "list_all isEmailChar (l' @ x @ y)" by simp_all
      with c n Cons.IH [of True] have "isEmailChar c" "localFrom True cs" by auto
      then show ?thesis by simp
    qed
  qed
qed

lemma emailShape_Nil: "\<not> emailShape []"
  by (simp add: emailShape_def)

lemma emailRegexTest_iff: "emailRegexTest e = emailShape e"
  by (simp add: emailRegexTest_def emailShape_def localFrom_iff)

text \<open>
  C7 (as amended). The email is trimmed and lower-cased; it is accepted exactly when the
  result has the shape \<open>emailShape\<close>: no white space anywhere, exactly one \<open>@\<close> with at
  least one character before it, and after it a domain with a dot that is neither its
  first nor its last character. An input that is empty after trimming is rejected as a
  missing required value, every other rejected input with \<open>email is invalid\<close>.
\<close>

theorem validateEmail_accepts:
  "(validateEmail v = Inr e) = (e = toLowerCase (trim v) \<and> emailShape e)
   \<and> (validateEmail v = Inl m \<longrightarrow>
        (if trim v = [] then m = ''Path `email` is required.'' else m = ''email is invalid''))"
  using emailShape_Nil
  by (auto simp: validateEmail_def setEmail_def emailRegexTest_iff toLowerCase_Nil_iff)

theorem validateEmail_accepts_witness:
  "validateEmail (js '' Ada@Example.org '') = Inr (js ''ada@example.org'')
   \<and> emailShape (js ''ada@example.org'')
   \<and> validateEmail (js ''not-an-email'') = Inl ''email is invalid''
   \<and> validateEmail (js ''  '') = Inl ''Path `email` is required.''"
proof -
  have r: "validateEmail (js ''  '') = Inl ''Path `email` is required.''"
    by (simp add: email_eval)
  have s: "emailShape (js ''ada@example.org'')"
    using validateEmail_accepts [of "js '' Ada@Example.org ''" "js ''ada@example.org''" "[]"]
      validateEmail_ada by blast
  from r s validateEmail_ada validateEmail_bad show ?thesis by blast
qed

text \<open>
  The claim as it was stated fails: \<open>a@.b\<close> and \<open>a b@c.d\<close> have exactly one \<open>@\<close>, a
  character that is no white space on each side of it and a dot after it, and both are
  rejected.
\<close>

theorem validateEmail_counterexample:
  "specEmailOk (setEmail (js ''a@.b'')) \<and> validateEmail (js ''a@.b'') = Inl ''email is invalid''
   \<and> specEmailOk (setEmail (js ''a b@c.d'')) \<and> validateEmail (js ''a b@c.d'') = Inl ''email is invalid''"
  by (simp add: email_eval specEmailOk_def)

end
